theory Spec2Isabelle
  imports Main "HOL-Library.Word" "HOL-Library.Multiset"
begin

unbundle bit_operations_syntax

section \<open>The map phase of the bulk loader (dgraph/cmd/bulk/mapper.go)\<close>

text \<open>
  A shallow embedding of \<^verbatim>\<open>mapper.go\<close>. The functions of that file are HOL functions
  of the same names. What \<^verbatim>\<open>mapper.go\<close> calls but does not define (the schema store, the
  UID table, the key builders, the tokenizers, the protobuf codec of a map entry, the
  N-Quad parser) is a field of the record \<open>env\<close>, so every theorem holds for every
  implementation of those collaborators unless it states an assumption on one.
  A fatal exit (\<^verbatim>\<open>x.Check\<close>, \<^verbatim>\<open>x.AssertTrue\<close>, \<^verbatim>\<open>log.Fatalf\<close>, a Go panic) is the
  value \<open>None\<close>, or \<open>Fatal\<close> where the function is recursive.
\<close>

subsection \<open>Data\<close>

type_synonym byte = "8 word"
type_synonym bytes = "byte list"
type_synonym uint64 = "64 word"

text \<open>\<^verbatim>\<open>[]byte(s)\<close>: a Go string is its bytes.\<close>

definition bytes_of :: "string \<Rightarrow> bytes" where
  "bytes_of s = map (\<lambda>c. of_nat (of_char c)) s"

datatype Posting_ValType =
  Posting_DEFAULT | Posting_BINARY | Posting_INT | Posting_FLOAT | Posting_BOOL
| Posting_DATETIME | Posting_GEO | Posting_UID | Posting_PASSWORD | Posting_STRING

datatype Posting_PostingType = Posting_REF | Posting_VALUE | Posting_VALUE_LANG

datatype SchemaUpdate_Directive =
  SchemaUpdate_NONE | SchemaUpdate_INDEX | SchemaUpdate_REVERSE | SchemaUpdate_DELETE

text \<open>A facet is a key-value annotation of an edge; the mapper only carries facets along.\<close>

type_synonym Facet = "string \<times> bytes"

text \<open>\<^verbatim>\<open>api.Value\<close>, the literal object of a statement (a protobuf oneof).\<close>

datatype Value =
  Value_DefaultVal string | Value_BytesVal bytes | Value_IntVal uint64
| Value_BoolVal bool | Value_StrVal string | Value_DoubleVal uint64
| Value_UidVal uint64

text \<open>
  \<^verbatim>\<open>gql.NQuad\<close>: \<open>NQuad_ObjectValue = None\<close> is Go's \<^verbatim>\<open>nq.GetObjectValue() == nil\<close>, the
  object is then the node named by \<open>NQuad_ObjectId\<close>.
\<close>

record NQuad =
  NQuad_Subject :: string
  NQuad_Predicate :: string
  NQuad_ObjectId :: string
  NQuad_ObjectValue :: "Value option"
  NQuad_Lang :: string
  NQuad_Facets :: "Facet list"

record DirectedEdge =
  DirectedEdge_Entity :: uint64
  DirectedEdge_Attr :: string
  DirectedEdge_Value :: bytes
  DirectedEdge_ValueType :: Posting_ValType
  DirectedEdge_ValueId :: uint64
  DirectedEdge_Lang :: string
  DirectedEdge_Facets :: "Facet list"

record Posting =
  Posting_Uid :: uint64
  Posting_Value :: bytes
  Posting_ValType :: Posting_ValType
  Posting_PostingType :: Posting_PostingType
  Posting_Facets :: "Facet list"

text \<open>\<^verbatim>\<open>intern.MapEntry\<close>: \<open>MapEntry_Posting = None\<close> is the nil pointer, \<open>MapEntry_Uid = 0\<close>
  the zero value of a field that was not set.\<close>

record MapEntry =
  MapEntry_Key :: bytes
  MapEntry_Uid :: uint64
  MapEntry_Posting :: "Posting option"

record SchemaUpdate =
  SchemaUpdate_ValueType :: Posting_ValType
  SchemaUpdate_Directive :: SchemaUpdate_Directive
  SchemaUpdate_Tokenizer :: "string list"
  SchemaUpdate_List :: bool

text \<open>The options \<^verbatim>\<open>m.opt\<close> that \<^verbatim>\<open>mapper.go\<close> reads.\<close>

record options =
  MapBufSize :: nat
  IgnoreErrors :: bool
  StoreXids :: bool
  ExpandEdges :: bool

text \<open>An error returned by \<^verbatim>\<open>rdf.Parse\<close>: the sentinel \<^verbatim>\<open>rdf.ErrEmpty\<close>, or any other.\<close>

datatype ParseError = ErrEmpty | ErrInvalid string

text \<open>
  The collaborators of \<^verbatim>\<open>mapper.go\<close>, none of them defined in it. \<open>'x\<close> is the state of
  the UID table \<^verbatim>\<open>m.xids\<close>, \<open>'t\<close> a tokenizer, \<open>'v\<close> a converted Go value
  (\<^verbatim>\<open>interface{}\<close>). A function that can end the process returns an option.
  \<^item> \<open>AssignUid\<close> is \<^verbatim>\<open>m.xids.AssignUid\<close>: the UID, whether it is new, the table afterwards.
  \<^item> \<open>getSchema\<close> and \<open>validateType\<close> are \<^verbatim>\<open>m.schema\<close>'s; \<open>validateType\<close> gets the edge by
    pointer, so it returns the edge as it leaves it. The schema is read-only during the run.
  \<^item> \<open>NewPosting\<close> is \<^verbatim>\<open>posting.NewPosting\<close>, \<open>Fingerprint64\<close> is \<^verbatim>\<open>farm.Fingerprint64\<close>.
  \<^item> \<open>shardFor\<close> is \<^verbatim>\<open>m.state.shards.shardFor\<close>; \<open>DataKey\<close>, \<open>ReverseKey\<close>, \<open>IndexKey\<close>
    are package \<^verbatim>\<open>x\<close>'s.
  \<^item> \<open>CreateUidEdge\<close>, \<open>CreateValueEdge\<close> are \<^verbatim>\<open>gql.NQuad\<close>'s; \<open>Parse\<close> is \<^verbatim>\<open>rdf.Parse\<close>;
    \<open>SortAndValidate\<close> is \<^verbatim>\<open>facets.SortAndValidate\<close>, which sorts in place: \<open>None\<close> is
    its error, \<open>Some fs\<close> the sorted facets.
  \<^item> \<open>GetTokenizer\<close>, \<open>BuildTokens\<close> are package \<^verbatim>\<open>tok\<close>'s, \<open>Convert\<close> is \<^verbatim>\<open>types.Convert\<close>
    on a storage value (type and bytes) and a target type.
  \<^item> \<open>Marshal\<close> and \<open>Unmarshal\<close> are the protobuf codec of \<^verbatim>\<open>intern.MapEntry\<close>
    (\<^verbatim>\<open>MarshalTo\<close>, \<^verbatim>\<open>proto.Unmarshal\<close>); \<open>None\<close> is an error.
  \<^item> \<open>TrimSpace\<close> is \<^verbatim>\<open>strings.TrimSpace\<close>.
\<close>

record ('x, 't, 'v) env =
  opt :: options
  AssignUid :: "'x \<Rightarrow> string \<Rightarrow> uint64 \<times> bool \<times> 'x"
  getSchema :: "string \<Rightarrow> SchemaUpdate"
  validateType :: "DirectedEdge \<Rightarrow> bool \<Rightarrow> DirectedEdge option"
  NewPosting :: "DirectedEdge \<Rightarrow> Posting option"
  Fingerprint64 :: "bytes \<Rightarrow> uint64"
  shardFor :: "string \<Rightarrow> nat"
  DataKey :: "string \<Rightarrow> uint64 \<Rightarrow> bytes"
  ReverseKey :: "string \<Rightarrow> uint64 \<Rightarrow> bytes"
  IndexKey :: "string \<Rightarrow> string \<Rightarrow> bytes"
  CreateUidEdge :: "NQuad \<Rightarrow> uint64 \<Rightarrow> uint64 \<Rightarrow> DirectedEdge"
  CreateValueEdge :: "NQuad \<Rightarrow> uint64 \<Rightarrow> DirectedEdge option"
  Parse :: "string \<Rightarrow> ParseError + NQuad"
  SortAndValidate :: "Facet list \<Rightarrow> Facet list option"
  GetTokenizer :: "string \<Rightarrow> 't option"
  Convert :: "Posting_ValType \<Rightarrow> bytes \<Rightarrow> Posting_ValType \<Rightarrow> 'v option"
  BuildTokens :: "'v \<Rightarrow> 't \<Rightarrow> string list option"
  Marshal :: "MapEntry \<Rightarrow> bytes option"
  Unmarshal :: "bytes \<Rightarrow> MapEntry option"
  TrimSpace :: "string \<Rightarrow> string"

text \<open>
  The state a mapper changes: the UID table, the buffer \<^verbatim>\<open>entriesBuf\<close> of every shard (\<open>shards\<close>),
  the progress counters \<^verbatim>\<open>m.prog\<close>, the file counter \<^verbatim>\<open>m.mapFileId\<close> (a \<^verbatim>\<open>uint32\<close>) and
  the map files written so far, each with its shard and its number. The progress
  counters are \<^verbatim>\<open>int64\<close> in the code and only ever incremented by one; they are integers
  here, which is the same up to \<open>2 ^ 63\<close> increments.
\<close>

record 'x mapper =
  xids :: 'x
  shards :: "bytes list"
  mapEdgeCount :: int
  errCount :: int
  rdfCount :: int
  mapFileId :: "32 word"
  files :: "(nat \<times> 32 word \<times> bytes) list"

text \<open>The outcome of a recursive function: the process ended, the recursion budget of
  the model ran out, or the function returned.\<close>

datatype 'a result = Fatal | OutOfFuel | Ok 'a

subsection \<open>Go's standard library\<close>

text \<open>\<^verbatim>\<open>bytes.Compare\<close>: -1, 0 or 1, comparing byte by byte, a proper prefix first.\<close>

fun bytes_Compare :: "bytes \<Rightarrow> bytes \<Rightarrow> int" where
  "bytes_Compare [] [] = 0"
| "bytes_Compare [] (b # bs) = - 1"
| "bytes_Compare (a # as) [] = 1"
| "bytes_Compare (a # as) (b # bs) =
     (if a < b then - 1 else if b < a then 1 else bytes_Compare as bs)"

text \<open>\<^verbatim>\<open>strings.HasPrefix\<close>.\<close>

fun HasPrefix :: "string \<Rightarrow> string \<Rightarrow> bool" where
  "HasPrefix s [] = True"
| "HasPrefix [] (c # cs) = False"
| "HasPrefix (a # s) (c # cs) = (a = c \<and> HasPrefix s cs)"

text \<open>
  \<^verbatim>\<open>binary.PutUvarint\<close>, as the bytes it writes: seven bits at a time, low bits first,
  the top bit set on every byte but the last. The \<^verbatim>\<open>uint64\<close> is a natural number; the
  callers pass a length.
\<close>

function PutUvarint :: "nat \<Rightarrow> bytes" where
  "PutUvarint x =
     (if x \<ge> 0x80 then (of_nat x OR 0x80) # PutUvarint (drop_bit 7 x) else [of_nat x])"
  by pat_completeness auto
termination
  by (relation "measure id") (auto simp: drop_bit_eq_div)

declare PutUvarint.simps [simp del]

text \<open>
  \<^verbatim>\<open>binary.Uvarint\<close>: the value and the number of bytes read; 0 bytes when the buffer ends
  early, a negative number on a value over 64 bits. On the paths that return a value
  no shift leaves 64 bits, so the natural number is the \<^verbatim>\<open>uint64\<close>.
\<close>

fun Uvarint_loop :: "bytes \<Rightarrow> nat \<Rightarrow> nat \<Rightarrow> nat \<Rightarrow> nat \<times> int" where
  "Uvarint_loop [] i x s = (0, 0)"
| "Uvarint_loop (b # buf) i x s =
     (if i = 10 then (0, - (int i + 1))
      else if b < 0x80 then
        (if i = 9 \<and> b > 1 then (0, - (int i + 1))
         else (x OR push_bit s (unat b), int i + 1))
      else Uvarint_loop buf (i + 1) (x OR push_bit s (unat (b AND 0x7f))) (s + 7))"

definition Uvarint :: "bytes \<Rightarrow> nat \<times> int" where
  "Uvarint buf = Uvarint_loop buf 0 0 0"

text \<open>
  \<^verbatim>\<open>sort.Slice\<close> with the comparison \<open>lt\<close>, as the insertion sort it runs on a short
  slice: the elements are taken from left to right, and each one is swapped with the
  element before it for as long as it is \<open>lt\<close> that element. \<open>insert_by lt x pre\<close> is
  the inner loop for the element \<open>x\<close> that follows the elements \<open>pre\<close>. Elements of
  which neither is \<open>lt\<close> the other keep their order. On a long slice \<^verbatim>\<open>sort.Slice\<close>
  runs a quicksort, and the order of such elements is not specified; the theorems
  below use only that the result is a permutation of the slice in which no element is
  \<open>lt\<close> an earlier one.
\<close>

function insert_by :: "('a \<Rightarrow> 'a \<Rightarrow> bool) \<Rightarrow> 'a \<Rightarrow> 'a list \<Rightarrow> 'a list" where
  "insert_by lt x pre =
     (if pre \<noteq> [] \<and> lt x (last pre) then insert_by lt x (butlast pre) @ [last pre]
      else pre @ [x])"
  by pat_completeness auto
termination
  by (relation "measure (\<lambda>(lt, x, pre). length pre)") auto

declare insert_by.simps [simp del]

definition sort_Slice :: "('a \<Rightarrow> 'a \<Rightarrow> bool) \<Rightarrow> 'a list \<Rightarrow> 'a list" where
  "sort_Slice lt xs = foldl (\<lambda>pre x. insert_by lt x pre) [] xs"

subsection \<open>Sorting and writing a buffer\<close>

text \<open>\<^verbatim>\<open>less\<close> (lines 57-70).\<close>

definition less :: "MapEntry \<Rightarrow> MapEntry \<Rightarrow> bool" where
  "less lhs rhs =
     (let keyCmp = bytes_Compare (MapEntry_Key lhs) (MapEntry_Key rhs) in
      if keyCmp \<noteq> 0 then keyCmp < 0
      else
        let lhsUID = (case MapEntry_Posting lhs of
                        Some p \<Rightarrow> Posting_Uid p | None \<Rightarrow> MapEntry_Uid lhs);
            rhsUID = (case MapEntry_Posting rhs of
                        Some p \<Rightarrow> Posting_Uid p | None \<Rightarrow> MapEntry_Uid rhs)
        in lhsUID < rhsUID)"

text \<open>\<^verbatim>\<open>me.Size()\<close>: the length of the entry's wire form. It is read only where the entry
  is marshalled next, and a marshalling error is fatal there.\<close>

definition MapEntry_Size :: "('x, 't, 'v) env \<Rightarrow> MapEntry \<Rightarrow> nat" where
  "MapEntry_Size env me = (case Marshal env me of Some bs \<Rightarrow> length bs | None \<Rightarrow> 0)"

text \<open>
  The first loop of \<^verbatim>\<open>writeMapEntriesToFile\<close> (lines 77-85): a length, then that many
  bytes, until the buffer is empty. \<^verbatim>\<open>n > 0\<close> is asserted, an unmarshalling error is
  fatal, and a length past the end of the buffer panics, at the latest in \<^verbatim>\<open>buf[sz:]\<close>.
\<close>

function decodeEntries ::
  "('x, 't, 'v) env \<Rightarrow> bytes \<Rightarrow> MapEntry list \<Rightarrow> MapEntry list option" where
  "decodeEntries env buf entries =
     (if length buf > 0 then
        (case Uvarint buf of (sz, n) \<Rightarrow>
           if \<not> n > 0 then None
           else if sz > length (drop (nat n) buf) then None
           else (case Unmarshal env (take sz (drop (nat n) buf)) of
                   None \<Rightarrow> None
                 | Some me \<Rightarrow> decodeEntries env (drop sz (drop (nat n) buf)) (entries @ [me])))
      else Some entries)"
  by pat_completeness auto
termination
  by (relation "measure (\<lambda>(env, buf, entries). length buf)") auto

declare decodeEntries.simps [simp del]

text \<open>
  The second loop (lines 92-98) writes into the region the buffer occupies: \<open>buf\<close> is
  what is left of the region, \<open>out\<close> the bytes written so far. \<^verbatim>\<open>PutUvarint\<close> and
  \<^verbatim>\<open>MarshalTo\<close> panic when the rest of the region is too short.
\<close>

fun encodeEntries ::
  "('x, 't, 'v) env \<Rightarrow> bytes \<Rightarrow> bytes \<Rightarrow> MapEntry list \<Rightarrow> (bytes \<times> bytes) option" where
  "encodeEntries env buf out [] = Some (buf, out)"
| "encodeEntries env buf out (me # entries) =
     (let pre = PutUvarint (MapEntry_Size env me) in
      if length pre > length buf then None
      else (case Marshal env me of
              None \<Rightarrow> None
            | Some bs \<Rightarrow>
                if length bs > length (drop (length pre) buf) then None
                else encodeEntries env (drop (length bs) (drop (length pre) buf))
                       (out @ pre @ bs) entries))"

text \<open>
  Lines 75-99 of \<^verbatim>\<open>writeMapEntriesToFile\<close>: decode the buffer, sort the entries, encode
  them into the region of the buffer, and assert \<^verbatim>\<open>len(buf) == 0\<close>, that is, that the
  region is used up. The result is the region as it is then, or \<open>None\<close> on a fatal exit.
\<close>

definition sortedRegion :: "('x, 't, 'v) env \<Rightarrow> bytes \<Rightarrow> bytes option" where
  "sortedRegion env entriesBuf =
     (case decodeEntries env entriesBuf [] of
        None \<Rightarrow> None
      | Some entries \<Rightarrow>
          (case encodeEntries env entriesBuf [] (sort_Slice less entries) of
             None \<Rightarrow> None
           | Some (buf, out) \<Rightarrow> if length buf = 0 then Some out else None))"

text \<open>
  \<^verbatim>\<open>writeMapEntriesToFile\<close> (lines 72-110): the region goes to the file of the shard with
  the next number of \<^verbatim>\<open>m.mapFileId\<close>. The second loop has written the region into the
  buffer passed in; what the caller keeps of that buffer is in \<open>flushFull\<close> and
  \<open>flushRest\<close> below. The errors of the file system (\<^verbatim>\<open>os.MkdirAll\<close>,
  \<^verbatim>\<open>x.WriteFileSync\<close>) and the lock of the shard are left out.
\<close>

definition writeMapEntriesToFile ::
  "('x, 't, 'v) env \<Rightarrow> bytes \<Rightarrow> nat \<Rightarrow> 'x mapper \<Rightarrow> 'x mapper option" where
  "writeMapEntriesToFile env buf shardIdx m =
     (case sortedRegion env buf of
        None \<Rightarrow> None
      | Some region \<Rightarrow>
          (let fileNum = mapFileId m + 1 in
           Some (m\<lparr>mapFileId := fileNum, files := files m @ [(shardIdx, fileNum, region)]\<rparr>)))"

subsection \<open>Building and buffering map entries\<close>

text \<open>
  \<^verbatim>\<open>addMapEntry\<close>, lines 157-164: the entry for a key and a posting. The entry starts
  with the key alone; then one of the two payload fields is assigned.
\<close>

definition newMapEntry :: "bytes \<Rightarrow> Posting \<Rightarrow> MapEntry" where
  "newMapEntry key p =
     (let me = \<lparr>MapEntry_Key = key, MapEntry_Uid = 0, MapEntry_Posting = None\<rparr> in
      if Posting_PostingType p \<noteq> Posting_REF \<or> length (Posting_Facets p) > 0
      then me\<lparr>MapEntry_Posting := Some p\<rparr>
      else me\<lparr>MapEntry_Uid := Posting_Uid p\<rparr>)"

text \<open>
  \<^verbatim>\<open>addMapEntry\<close> (lines 154-171): count the entry, then append its length
  (\<^verbatim>\<open>x.AppendUvarint\<close>) and its wire form (\<^verbatim>\<open>x.AppendProtoMsg\<close>) to the shard's buffer.
  A shard index outside \<^verbatim>\<open>m.shards\<close> panics; a marshalling error is fatal.
\<close>

definition addMapEntry ::
  "('x, 't, 'v) env \<Rightarrow> bytes \<Rightarrow> Posting \<Rightarrow> nat \<Rightarrow> 'x mapper \<Rightarrow> 'x mapper option" where
  "addMapEntry env key p shard m =
     (let m = m\<lparr>mapEdgeCount := mapEdgeCount m + 1\<rparr>;
          me = newMapEntry key p
      in if shard \<ge> length (shards m) then None
         else (case Marshal env me of
                 None \<Rightarrow> None
               | Some bs \<Rightarrow>
                   Some (m\<lparr>shards := (shards m)
                      [shard := (shards m ! shard) @ PutUvarint (MapEntry_Size env me) @ bs]\<rparr>)))"

text \<open>\<^verbatim>\<open>math.MaxUint64\<close>.\<close>

definition MaxUint64 :: uint64 where
  "MaxUint64 = 2 ^ 64 - 1"

text \<open>\<^verbatim>\<open>createPredicatePosting\<close> (lines 248-256).\<close>

definition createPredicatePosting :: "('x, 't, 'v) env \<Rightarrow> string \<Rightarrow> Posting" where
  "createPredicatePosting env predicate =
     (let fp = Fingerprint64 env (bytes_of predicate) in
      \<lparr>Posting_Uid = fp, Posting_Value = bytes_of predicate,
       Posting_ValType = Posting_DEFAULT, Posting_PostingType = Posting_VALUE,
       Posting_Facets = []\<rparr>)"

text \<open>
  \<^verbatim>\<open>createPostings\<close> (lines 258-290). The edge is passed by pointer, validated and, for
  the reverse posting, swapped in place: the result is the forward posting, the reverse
  posting (\<open>None\<close> is nil) and the edge as the caller finds it afterwards.
\<close>

definition createPostings ::
  "('x, 't, 'v) env \<Rightarrow> NQuad \<Rightarrow> DirectedEdge \<Rightarrow>
     (Posting \<times> Posting option \<times> DirectedEdge) option" where
  "createPostings env nq de =
     (case validateType env de (NQuad_ObjectValue nq = None) of
        None \<Rightarrow> None
      | Some de \<Rightarrow>
     (case NewPosting env de of
        None \<Rightarrow> None
      | Some p \<Rightarrow>
     (let sch = getSchema env (NQuad_Predicate nq);
          p = (if NQuad_ObjectValue nq \<noteq> None then
                 (if length (DirectedEdge_Lang de) > 0
                  then p\<lparr>Posting_Uid := Fingerprint64 env (bytes_of (DirectedEdge_Lang de))\<rparr>
                  else if SchemaUpdate_List sch
                  then p\<lparr>Posting_Uid := Fingerprint64 env (DirectedEdge_Value de)\<rparr>
                  else p\<lparr>Posting_Uid := MaxUint64\<rparr>)
               else p);
          p = p\<lparr>Posting_Facets := NQuad_Facets nq\<rparr>
      in if SchemaUpdate_Directive sch \<noteq> SchemaUpdate_REVERSE then Some (p, None, de)
         else if \<not> NQuad_ObjectValue nq = None then None
         else
           (let de = de\<lparr>DirectedEdge_Entity := DirectedEdge_ValueId de,
                         DirectedEdge_ValueId := DirectedEdge_Entity de\<rparr>
            in case validateType env de True of
                 None \<Rightarrow> None
               | Some de \<Rightarrow>
              (case NewPosting env de of
                 None \<Rightarrow> None
               | Some rp \<Rightarrow>
                  (let de = de\<lparr>DirectedEdge_Entity := DirectedEdge_ValueId de,
                                DirectedEdge_ValueId := DirectedEdge_Entity de\<rparr>
                   in Some (p, Some rp, de)))))))"

text \<open>
  \<^verbatim>\<open>addIndexMapEntries\<close> (lines 292-333): the inner loop over the tokens of one
  tokenizer, the outer loop over the tokenizer names of the schema, and the function.
\<close>

fun addTokenEntries ::
  "('x, 't, 'v) env \<Rightarrow> NQuad \<Rightarrow> DirectedEdge \<Rightarrow> string list \<Rightarrow> 'x mapper \<Rightarrow>
     'x mapper option" where
  "addTokenEntries env nq de [] m = Some m"
| "addTokenEntries env nq de (t # toks) m =
     (case addMapEntry env (IndexKey env (NQuad_Predicate nq) t)
             \<lparr>Posting_Uid = DirectedEdge_Entity de, Posting_Value = [],
              Posting_ValType = Posting_DEFAULT, Posting_PostingType = Posting_REF,
              Posting_Facets = []\<rparr>
             (shardFor env (NQuad_Predicate nq)) m of
        None \<Rightarrow> None
      | Some m \<Rightarrow> addTokenEntries env nq de toks m)"

fun addTokenizerEntries ::
  "('x, 't, 'v) env \<Rightarrow> NQuad \<Rightarrow> DirectedEdge \<Rightarrow> SchemaUpdate \<Rightarrow> string list \<Rightarrow>
     'x mapper \<Rightarrow> 'x mapper option" where
  "addTokenizerEntries env nq de sch [] m = Some m"
| "addTokenizerEntries env nq de sch (tokerName # names) m =
     (case GetTokenizer env tokerName of
        None \<Rightarrow> None
      | Some toker \<Rightarrow>
     (case Convert env (DirectedEdge_ValueType de) (DirectedEdge_Value de)
             (SchemaUpdate_ValueType sch) of
        None \<Rightarrow> None
      | Some schemaVal \<Rightarrow>
     (case BuildTokens env schemaVal toker of
        None \<Rightarrow> None
      | Some toks \<Rightarrow>
     (case addTokenEntries env nq de toks m of
        None \<Rightarrow> None
      | Some m \<Rightarrow> addTokenizerEntries env nq de sch names m))))"

definition addIndexMapEntries ::
  "('x, 't, 'v) env \<Rightarrow> NQuad \<Rightarrow> DirectedEdge \<Rightarrow> 'x mapper \<Rightarrow> 'x mapper option" where
  "addIndexMapEntries env nq de m =
     (if NQuad_ObjectValue nq = None then Some m
      else
        (let sch = getSchema env (NQuad_Predicate nq)
         in addTokenizerEntries env nq de sch (SchemaUpdate_Tokenizer sch) m))"

subsection \<open>Processing a statement\<close>

text \<open>
  \<^verbatim>\<open>processNQuad\<close> from line 201 on, where the subject, the object and the edge are
  known: the forward entry, the reverse entry if there is a reverse posting, the index
  entries, and the entry of the predicate list under \<^verbatim>\<open>ExpandEdges\<close>.
\<close>

definition processEdge ::
  "('x, 't, 'v) env \<Rightarrow> NQuad \<Rightarrow> uint64 \<Rightarrow> uint64 \<Rightarrow> DirectedEdge \<Rightarrow> 'x mapper \<Rightarrow>
     'x mapper option" where
  "processEdge env nq sid oid de m =
     (case createPostings env nq de of
        None \<Rightarrow> None
      | Some (fwd, rev', de) \<Rightarrow>
     (let shard = shardFor env (NQuad_Predicate nq);
          key = DataKey env (NQuad_Predicate nq) sid
      in case addMapEntry env key fwd shard m of
        None \<Rightarrow> None
      | Some m \<Rightarrow>
     (case (case rev' of
              None \<Rightarrow> Some m
            | Some rp \<Rightarrow> addMapEntry env (ReverseKey env (NQuad_Predicate nq) oid) rp shard m) of
        None \<Rightarrow> None
      | Some m \<Rightarrow>
     (case addIndexMapEntries env nq de m of
        None \<Rightarrow> None
      | Some m \<Rightarrow>
          if ExpandEdges (opt env) then
            (let shard = shardFor env ''_predicate_'';
                 key = DataKey env ''_predicate_'' sid;
                 pp = createPredicatePosting env (NQuad_Predicate nq)
             in addMapEntry env key pp shard m)
          else Some m))))"

text \<open>The result of a function that is not recursive, as an outcome.\<close>

definition of_option :: "'a option \<Rightarrow> 'a result" where
  "of_option r = (case r of None \<Rightarrow> Fatal | Some a \<Rightarrow> Ok a)"

text \<open>The statement \<^verbatim>\<open>lookupUid\<close> builds for a new identifier (lines 229-235).\<close>

definition xidNQuad :: "string \<Rightarrow> NQuad" where
  "xidNQuad xid =
     \<lparr>NQuad_Subject = xid, NQuad_Predicate = ''xid'', NQuad_ObjectId = [],
      NQuad_ObjectValue = Some (Value_StrVal xid), NQuad_Lang = [], NQuad_Facets = []\<rparr>"

text \<open>
  \<^verbatim>\<open>processNQuad\<close> (lines 188-218) and \<^verbatim>\<open>lookupUid\<close> (lines 220-238) call each other.
  The first argument after \<open>env\<close> bounds the depth of the calls: each call passes one
  less, and a call with 0 gives \<open>OutOfFuel\<close>.
\<close>

fun processNQuad ::
  "('x, 't, 'v) env \<Rightarrow> nat \<Rightarrow> NQuad \<Rightarrow> 'x mapper \<Rightarrow> 'x mapper result"
and lookupUid ::
  "('x, 't, 'v) env \<Rightarrow> nat \<Rightarrow> string \<Rightarrow> 'x mapper \<Rightarrow> (uint64 \<times> 'x mapper) result"
where
  "processNQuad env 0 nq m = OutOfFuel"
| "processNQuad env (Suc k) nq m =
     (case lookupUid env k (NQuad_Subject nq) m of
        Fatal \<Rightarrow> Fatal
      | OutOfFuel \<Rightarrow> OutOfFuel
      | Ok (sid, m) \<Rightarrow>
          if NQuad_ObjectValue nq = None then
            (case lookupUid env k (NQuad_ObjectId nq) m of
               Fatal \<Rightarrow> Fatal
             | OutOfFuel \<Rightarrow> OutOfFuel
             | Ok (oid, m) \<Rightarrow>
                 of_option (processEdge env nq sid oid (CreateUidEdge env nq sid oid) m))
          else
            (case CreateValueEdge env nq sid of
               None \<Rightarrow> Fatal
             | Some de \<Rightarrow> of_option (processEdge env nq sid 0 de m)))"
| "lookupUid env 0 xid m = OutOfFuel"
| "lookupUid env (Suc k) xid m =
     (case AssignUid env (xids m) xid of
        (uid, isNew, xs) \<Rightarrow>
          (let m = m\<lparr>xids := xs\<rparr>
           in if \<not> isNew \<or> \<not> StoreXids (opt env) then Ok (uid, m)
              else if HasPrefix xid ''_:'' then Ok (uid, m)
              else
                (case processNQuad env k (xidNQuad xid) m of
                   Fatal \<Rightarrow> Fatal
                 | OutOfFuel \<Rightarrow> OutOfFuel
                 | Ok m \<Rightarrow> Ok (uid, m))))"

text \<open>\<^verbatim>\<open>parseNQuad\<close> (lines 240-246).\<close>

definition parseNQuad :: "('x, 't, 'v) env \<Rightarrow> string \<Rightarrow> ParseError + NQuad" where
  "parseNQuad env line = (case Parse env line of Inl err \<Rightarrow> Inl err | Inr nq \<Rightarrow> Inr nq)"

text \<open>A Go error that \<^verbatim>\<open>processRDF\<close> returns: the wrapped parse error with the line, or
  the error of the facets.\<close>

datatype Error = ParseFailed ParseError string | FacetsInvalid

text \<open>\<^verbatim>\<open>processRDF\<close> (lines 173-186): the returned error (\<open>None\<close> is nil) and the state.\<close>

definition processRDF ::
  "('x, 't, 'v) env \<Rightarrow> nat \<Rightarrow> string \<Rightarrow> 'x mapper \<Rightarrow> (Error option \<times> 'x mapper) result" where
  "processRDF env k rdfLine m =
     (case parseNQuad env rdfLine of
        Inl err \<Rightarrow>
          if err = ErrEmpty then Ok (None, m)
          else Ok (Some (ParseFailed err rdfLine), m)
      | Inr nq \<Rightarrow>
          (case SortAndValidate env (NQuad_Facets nq) of
             None \<Rightarrow> Ok (Some FacetsInvalid, m)
           | Some fs \<Rightarrow>
               (case processNQuad env k (nq\<lparr>NQuad_Facets := fs\<rparr>) m of
                  Fatal \<Rightarrow> Fatal
                | OutOfFuel \<Rightarrow> OutOfFuel
                | Ok m \<Rightarrow> Ok (None, m))))"

subsection \<open>The worker loop\<close>

text \<open>
  Lines 134-141 of \<^verbatim>\<open>run\<close>: every shard whose buffer has reached \<^verbatim>\<open>MapBufSize\<close> is
  written to a file and gets a new, empty buffer; the buffer that was written is not
  read again. The write runs in a goroutine; here it happens at once.
\<close>

fun flushFull ::
  "('x, 't, 'v) env \<Rightarrow> nat list \<Rightarrow> 'x mapper \<Rightarrow> 'x mapper option" where
  "flushFull env [] m = Some m"
| "flushFull env (i # idxs) m =
     (if length (shards m ! i) \<ge> MapBufSize (opt env) then
        (case writeMapEntriesToFile env (shards m ! i) i m of
           None \<Rightarrow> None
         | Some m \<Rightarrow> flushFull env idxs (m\<lparr>shards := (shards m)[i := []]\<rparr>))
      else flushFull env idxs m)"

text \<open>
  Lines 123-141 of \<^verbatim>\<open>run\<close>, the body of the inner loop once a line is read: trim it,
  process it, count an error and stop on it unless \<^verbatim>\<open>IgnoreErrors\<close> is set, count the
  line, flush the full buffers.
\<close>

definition runLine ::
  "('x, 't, 'v) env \<Rightarrow> nat \<Rightarrow> string \<Rightarrow> 'x mapper \<Rightarrow> 'x mapper result" where
  "runLine env k rdf m =
     (let rdf = TrimSpace env rdf
      in case processRDF env k rdf m of
           Fatal \<Rightarrow> Fatal
         | OutOfFuel \<Rightarrow> OutOfFuel
         | Ok (err, m) \<Rightarrow>
             (case (case err of
                      Some e \<Rightarrow>
                        (let m = m\<lparr>errCount := errCount m + 1\<rparr>
                         in if \<not> IgnoreErrors (opt env) then None else Some m)
                    | None \<Rightarrow> Some m) of
                None \<Rightarrow> Fatal
              | Some m \<Rightarrow>
                  (let m = m\<lparr>rdfCount := rdfCount m + 1\<rparr>
                   in of_option (flushFull env [0 ..< length (shards m)] m))))"

text \<open>\<^verbatim>\<open>chunkBuf.ReadString\<close> with the newline as delimiter: the line with its newline
  and the rest of the chunk, or the rest of the chunk and \<open>True\<close> for \<^verbatim>\<open>io.EOF\<close> when
  there is no newline.\<close>

fun ReadString :: "string \<Rightarrow> string \<times> string \<times> bool" where
  "ReadString [] = ([], [], True)"
| "ReadString (c # cs) =
     (if c = CHR 0x0A then ([c], cs, False)
      else (case ReadString cs of (line, rest, eof) \<Rightarrow> (c # line, rest, eof)))"

text \<open>The inner loop of \<^verbatim>\<open>run\<close> (lines 115-142) over one chunk: the last line is
  processed too.\<close>

function runChunk ::
  "('x, 't, 'v) env \<Rightarrow> nat \<Rightarrow> string \<Rightarrow> 'x mapper \<Rightarrow> 'x mapper result" where
  "runChunk env k chunkBuf m =
     (case ReadString chunkBuf of
        (rdf, rest, eof) \<Rightarrow>
          (case runLine env k rdf m of
             Fatal \<Rightarrow> Fatal
           | OutOfFuel \<Rightarrow> OutOfFuel
           | Ok m \<Rightarrow> if eof then Ok m else runChunk env k rest m))"
  by pat_completeness auto
termination
proof -
  have shorter: "ReadString s = (line, r, False) \<Longrightarrow> length r < length s" for s line r
    by (induction s arbitrary: line r) (auto split: if_splits prod.splits)
  show ?thesis
    by (relation "measure (\<lambda>(env, k, chunkBuf, m). length chunkBuf)")
       (auto dest: shorter [OF sym])
qed

declare runChunk.simps [simp del]

text \<open>
  Lines 144-151: at the end every buffer that is not empty is written. The shard keeps
  its buffer, into which \<^verbatim>\<open>writeMapEntriesToFile\<close> has encoded the sorted entries: it
  holds the sorted region afterwards.
\<close>

fun flushRest ::
  "('x, 't, 'v) env \<Rightarrow> nat list \<Rightarrow> 'x mapper \<Rightarrow> 'x mapper option" where
  "flushRest env [] m = Some m"
| "flushRest env (i # idxs) m =
     (if length (shards m ! i) > 0 then
        (case writeMapEntriesToFile env (shards m ! i) i m of
           None \<Rightarrow> None
         | Some m' \<Rightarrow>
             (case sortedRegion env (shards m ! i) of
                None \<Rightarrow> None
              | Some region \<Rightarrow>
                  flushRest env idxs (m'\<lparr>shards := (shards m')[i := region]\<rparr>)))
      else flushRest env idxs m)"

text \<open>\<^verbatim>\<open>run\<close> (lines 112-152) over the chunks of the channel \<^verbatim>\<open>m.rdfChunkCh\<close>.\<close>

fun run ::
  "('x, 't, 'v) env \<Rightarrow> nat \<Rightarrow> string list \<Rightarrow> 'x mapper \<Rightarrow> 'x mapper result" where
  "run env k [] m = of_option (flushRest env [0 ..< length (shards m)] m)"
| "run env k (chunkBuf # chunks) m =
     (case runChunk env k chunkBuf m of
        Fatal \<Rightarrow> Fatal
      | OutOfFuel \<Rightarrow> OutOfFuel
      | Ok m \<Rightarrow> run env k chunks m)"

section \<open>Notions the properties are stated with\<close>

text \<open>The bytes \<^verbatim>\<open>addMapEntry\<close> appends to a buffer for one entry: its length as a
  uvarint, then its wire form.\<close>

definition entryBytes :: "('x, 't, 'v) env \<Rightarrow> MapEntry \<Rightarrow> bytes" where
  "entryBytes env me =
     PutUvarint (MapEntry_Size env me) @ (case Marshal env me of Some bs \<Rightarrow> bs | None \<Rightarrow> [])"

text \<open>The bytes of a buffer that holds the given entries in this order.\<close>

definition frames :: "('x, 't, 'v) env \<Rightarrow> MapEntry list \<Rightarrow> bytes" where
  "frames env mes = concat (map (entryBytes env) mes)"

text \<open>
  The codec loses nothing of an entry: it marshals, and unmarshalling the bytes gives
  the entry back. The length of the wire form is that of a Go slice, so it is below
  \<open>2 ^ 64\<close>.
\<close>

definition lossless :: "('x, 't, 'v) env \<Rightarrow> MapEntry \<Rightarrow> bool" where
  "lossless env me =
     (case Marshal env me of
        None \<Rightarrow> False
      | Some bs \<Rightarrow> Unmarshal env bs = Some me \<and> length bs < 2 ^ 64)"

text \<open>A sequence of calls of \<^verbatim>\<open>addMapEntry\<close>, each with its key, posting and shard.\<close>

fun addMapEntries ::
  "('x, 't, 'v) env \<Rightarrow> (bytes \<times> Posting \<times> nat) list \<Rightarrow> 'x mapper \<Rightarrow> 'x mapper option" where
  "addMapEntries env [] m = Some m"
| "addMapEntries env ((key, p, shard) # calls) m =
     (case addMapEntry env key p shard m of
        None \<Rightarrow> None
      | Some m \<Rightarrow> addMapEntries env calls m)"

text \<open>The lexicographic order of byte strings, a proper prefix first, as a relation.\<close>

definition key_le :: "bytes \<Rightarrow> bytes \<Rightarrow> bool" where
  "key_le a b = (a = b \<or> (a, b) \<in> lexord {(x, y). x < y})"

text \<open>The tie-break ID of an entry: the UID of the posting when the entry carries one,
  the bare UID otherwise.\<close>

definition tieBreak :: "MapEntry \<Rightarrow> uint64" where
  "tieBreak me =
     (case MapEntry_Posting me of Some p \<Rightarrow> Posting_Uid p | None \<Rightarrow> MapEntry_Uid me)"

text \<open>An edge with its source and its destination exchanged, as lines 283 and 287 of
  \<^verbatim>\<open>createPostings\<close> exchange them.\<close>

definition swapEnds :: "DirectedEdge \<Rightarrow> DirectedEdge" where
  "swapEnds de =
     de\<lparr>DirectedEdge_Entity := DirectedEdge_ValueId de,
        DirectedEdge_ValueId := DirectedEdge_Entity de\<rparr>"

text \<open>
  The calls of \<^verbatim>\<open>addMapEntry\<close> the specification lists for a statement whose object is a
  node, with the subject \<open>sid\<close>, the object \<open>oid\<close>, the forward posting and the reverse
  posting if one was built: the forward entry under the key of the predicate and the
  subject, the reverse entry under the key of the predicate and the object, and the
  entry of the predicate list under \<^verbatim>\<open>ExpandEdges\<close>.
\<close>

definition nodeEntries ::
  "('x, 't, 'v) env \<Rightarrow> NQuad \<Rightarrow> uint64 \<Rightarrow> uint64 \<Rightarrow> Posting \<Rightarrow> Posting option \<Rightarrow>
     (bytes \<times> Posting \<times> nat) list" where
  "nodeEntries env nq sid oid fwd rev' =
     [(DataKey env (NQuad_Predicate nq) sid, fwd, shardFor env (NQuad_Predicate nq))] @
     (case rev' of
        None \<Rightarrow> []
      | Some rp \<Rightarrow>
          [(ReverseKey env (NQuad_Predicate nq) oid, rp, shardFor env (NQuad_Predicate nq))]) @
     (if ExpandEdges (opt env)
      then [(DataKey env ''_predicate_'' sid, createPredicatePosting env (NQuad_Predicate nq),
             shardFor env ''_predicate_'')]
      else [])"

text \<open>
  The disambiguator of a value posting in the order of the specification: the hash of
  the language tag if there is one, else the hash of the value under a list schema,
  else the sentinel.
\<close>

definition disambiguator :: "('x, 't, 'v) env \<Rightarrow> NQuad \<Rightarrow> DirectedEdge \<Rightarrow> uint64" where
  "disambiguator env nq de =
     (if DirectedEdge_Lang de \<noteq> [] then Fingerprint64 env (bytes_of (DirectedEdge_Lang de))
      else if SchemaUpdate_List (getSchema env (NQuad_Predicate nq))
      then Fingerprint64 env (DirectedEdge_Value de)
      else MaxUint64)"

text \<open>
  \<^verbatim>\<open>AssignUid\<close> is idempotent: a resolution of an identifier that follows a resolution
  of the same identifier reports it as not new.
\<close>

definition idempotent :: "('x, 't, 'v) env \<Rightarrow> bool" where
  "idempotent env =
     (\<forall>xs xid. case AssignUid env xs xid of
        (uid, isNew, xs') \<Rightarrow> \<not> fst (snd (AssignUid env xs' xid)))"

text \<open>The tokens of an edge: what \<^verbatim>\<open>BuildTokens\<close> gives for the converted value and each
  tokenizer of the schema.\<close>

fun tokensOf ::
  "('x, 't, 'v) env \<Rightarrow> DirectedEdge \<Rightarrow> SchemaUpdate \<Rightarrow> string list \<Rightarrow> string list" where
  "tokensOf env de sch [] = []"
| "tokensOf env de sch (tokerName # names) =
     (case GetTokenizer env tokerName of
        None \<Rightarrow> []
      | Some toker \<Rightarrow>
     (case Convert env (DirectedEdge_ValueType de) (DirectedEdge_Value de)
             (SchemaUpdate_ValueType sch) of
        None \<Rightarrow> []
      | Some schemaVal \<Rightarrow>
     (case BuildTokens env schemaVal toker of
        None \<Rightarrow> []
      | Some toks \<Rightarrow> toks @ tokensOf env de sch names)))"

text \<open>
  The entry count of one statement as the specification gives it: 1 for the forward
  entry, 1 if the predicate has the reverse directive and the object is a node, the
  number of tokens if the object is a value, and 1 under \<^verbatim>\<open>ExpandEdges\<close>. \<open>de\<close> is the
  edge of the statement as \<^verbatim>\<open>createPostings\<close> leaves it.
\<close>

definition entryLaw :: "('x, 't, 'v) env \<Rightarrow> NQuad \<Rightarrow> DirectedEdge \<Rightarrow> int" where
  "entryLaw env nq de =
     (let sch = getSchema env (NQuad_Predicate nq) in
      1 +
      (if SchemaUpdate_Directive sch = SchemaUpdate_REVERSE \<and> NQuad_ObjectValue nq = None
       then 1 else 0) +
      (if NQuad_ObjectValue nq \<noteq> None
       then int (length (tokensOf env de sch (SchemaUpdate_Tokenizer sch))) else 0) +
      (if ExpandEdges (opt env) then 1 else 0))"

text \<open>The edge \<^verbatim>\<open>processNQuad\<close> builds for a statement when \<^verbatim>\<open>AssignUid\<close> alone resolves
  the identifiers, and the UID table afterwards.\<close>

definition resolveEdge ::
  "('x, 't, 'v) env \<Rightarrow> 'x \<Rightarrow> NQuad \<Rightarrow> DirectedEdge option \<times> 'x" where
  "resolveEdge env xs nq =
     (case AssignUid env xs (NQuad_Subject nq) of
        (sid, sidNew, xs) \<Rightarrow>
          if NQuad_ObjectValue nq = None then
            (case AssignUid env xs (NQuad_ObjectId nq) of
               (oid, oidNew, xs) \<Rightarrow> (Some (CreateUidEdge env nq sid oid), xs))
          else (CreateValueEdge env nq sid, xs))"

text \<open>The sum of the entry counts over a batch of statements, from the UID table the
  batch starts with.\<close>

fun batchLaw :: "('x, 't, 'v) env \<Rightarrow> 'x \<Rightarrow> NQuad list \<Rightarrow> int" where
  "batchLaw env xs [] = 0"
| "batchLaw env xs (nq # nqs) =
     (case resolveEdge env xs nq of
        (None, xs) \<Rightarrow> 0
      | (Some de, xs) \<Rightarrow>
          (case createPostings env nq de of
             None \<Rightarrow> 0
           | Some (fwd, rev', de) \<Rightarrow> entryLaw env nq de + batchLaw env xs nqs))"

text \<open>A batch: \<^verbatim>\<open>processNQuad\<close> on one statement after the other.\<close>

fun processNQuads ::
  "('x, 't, 'v) env \<Rightarrow> nat \<Rightarrow> NQuad list \<Rightarrow> 'x mapper \<Rightarrow> 'x mapper result" where
  "processNQuads env k [] m = Ok m"
| "processNQuads env k (nq # nqs) m =
     (case processNQuad env k nq m of
        Fatal \<Rightarrow> Fatal
      | OutOfFuel \<Rightarrow> OutOfFuel
      | Ok m \<Rightarrow> processNQuads env k nqs m)"

section \<open>An environment to run the mapper in\<close>

subsection \<open>Collaborators, statements and edges\<close>

text \<open>
  One implementation of the collaborators, small enough to evaluate: a UID table that
  hands out 1, 2, 3, ... in the order of first lookup, a schema of four predicates
  (\<open>knows\<close> with reverse edges, \<open>name\<close> with the tokenizer \<open>exact\<close>, the list \<open>nick\<close>, and
  \<open>likes\<close>, which declares reverse edges), statements of three words where an object
  that starts with \<open>=\<close> is a literal, and a codec that writes the key with its length,
  a tag for the payload, and one byte for a UID. It is used to instantiate the theorems.
\<close>

fun valTypeCode :: "Posting_ValType \<Rightarrow> byte" where
  "valTypeCode Posting_DEFAULT = 0" | "valTypeCode Posting_BINARY = 1"
| "valTypeCode Posting_INT = 2" | "valTypeCode Posting_FLOAT = 3"
| "valTypeCode Posting_BOOL = 4" | "valTypeCode Posting_DATETIME = 5"
| "valTypeCode Posting_GEO = 6" | "valTypeCode Posting_UID = 7"
| "valTypeCode Posting_PASSWORD = 8" | "valTypeCode Posting_STRING = 9"

definition valTypeOf :: "byte \<Rightarrow> Posting_ValType" where
  "valTypeOf b =
     (if b = 1 then Posting_BINARY else if b = 2 then Posting_INT
      else if b = 3 then Posting_FLOAT else if b = 4 then Posting_BOOL
      else if b = 5 then Posting_DATETIME else if b = 6 then Posting_GEO
      else if b = 7 then Posting_UID else if b = 8 then Posting_PASSWORD
      else if b = 9 then Posting_STRING else Posting_DEFAULT)"

fun postingTypeCode :: "Posting_PostingType \<Rightarrow> byte" where
  "postingTypeCode Posting_REF = 0"
| "postingTypeCode Posting_VALUE = 1"
| "postingTypeCode Posting_VALUE_LANG = 2"

definition postingTypeOf :: "byte \<Rightarrow> Posting_PostingType" where
  "postingTypeOf b =
     (if b = 1 then Posting_VALUE else if b = 2 then Posting_VALUE_LANG else Posting_REF)"

definition exMarshal :: "MapEntry \<Rightarrow> bytes option" where
  "exMarshal me =
     Some (of_nat (length (MapEntry_Key me)) # MapEntry_Key me @
       (case MapEntry_Posting me of
          None \<Rightarrow> [0, ucast (MapEntry_Uid me)]
        | Some p \<Rightarrow>
            [1, ucast (Posting_Uid p), valTypeCode (Posting_ValType p),
             postingTypeCode (Posting_PostingType p)] @ Posting_Value p))"

definition exUnmarshal :: "bytes \<Rightarrow> MapEntry option" where
  "exUnmarshal bs =
     (case bs of
        [] \<Rightarrow> None
      | n # r \<Rightarrow>
          (case drop (unat n) r of
             [t, u] \<Rightarrow>
               if t = 0 then
                 Some \<lparr>MapEntry_Key = take (unat n) r, MapEntry_Uid = ucast u,
                       MapEntry_Posting = None\<rparr>
               else None
           | t # u # vt # pt # v \<Rightarrow>
               if t = 1 then
                 Some \<lparr>MapEntry_Key = take (unat n) r, MapEntry_Uid = 0,
                       MapEntry_Posting = Some
                         \<lparr>Posting_Uid = ucast u, Posting_Value = v,
                          Posting_ValType = valTypeOf vt,
                          Posting_PostingType = postingTypeOf pt, Posting_Facets = []\<rparr>\<rparr>
               else None
           | _ \<Rightarrow> None))"

definition exAssignUid ::
  "(string \<times> uint64) list \<Rightarrow> string \<Rightarrow> uint64 \<times> bool \<times> (string \<times> uint64) list" where
  "exAssignUid xs xid =
     (case map_of xs xid of
        Some uid \<Rightarrow> (uid, False, xs)
      | None \<Rightarrow> (of_nat (length xs) + 1, True, xs @ [(xid, of_nat (length xs) + 1)]))"

definition exSchema :: "string \<Rightarrow> SchemaUpdate" where
  "exSchema predicate =
     (if predicate = ''knows'' then
        \<lparr>SchemaUpdate_ValueType = Posting_UID, SchemaUpdate_Directive = SchemaUpdate_REVERSE,
         SchemaUpdate_Tokenizer = [], SchemaUpdate_List = False\<rparr>
      else if predicate = ''name'' then
        \<lparr>SchemaUpdate_ValueType = Posting_STRING, SchemaUpdate_Directive = SchemaUpdate_INDEX,
         SchemaUpdate_Tokenizer = [''exact''], SchemaUpdate_List = False\<rparr>
      else if predicate = ''nick'' then
        \<lparr>SchemaUpdate_ValueType = Posting_STRING, SchemaUpdate_Directive = SchemaUpdate_NONE,
         SchemaUpdate_Tokenizer = [], SchemaUpdate_List = True\<rparr>
      else if predicate = ''likes'' then
        \<lparr>SchemaUpdate_ValueType = Posting_STRING, SchemaUpdate_Directive = SchemaUpdate_REVERSE,
         SchemaUpdate_Tokenizer = [], SchemaUpdate_List = False\<rparr>
      else
        \<lparr>SchemaUpdate_ValueType = Posting_DEFAULT, SchemaUpdate_Directive = SchemaUpdate_NONE,
         SchemaUpdate_Tokenizer = [], SchemaUpdate_List = False\<rparr>)"

definition exNewPosting :: "DirectedEdge \<Rightarrow> Posting option" where
  "exNewPosting de =
     Some \<lparr>Posting_Uid = DirectedEdge_ValueId de, Posting_Value = DirectedEdge_Value de,
           Posting_ValType = DirectedEdge_ValueType de,
           Posting_PostingType =
             (if length (DirectedEdge_Lang de) > 0 then Posting_VALUE_LANG
              else if DirectedEdge_ValueId de = 0 then Posting_VALUE else Posting_REF),
           Posting_Facets = DirectedEdge_Facets de\<rparr>"

definition exCreateUidEdge :: "NQuad \<Rightarrow> uint64 \<Rightarrow> uint64 \<Rightarrow> DirectedEdge" where
  "exCreateUidEdge nq sid oid =
     \<lparr>DirectedEdge_Entity = sid, DirectedEdge_Attr = NQuad_Predicate nq,
      DirectedEdge_Value = [], DirectedEdge_ValueType = Posting_UID,
      DirectedEdge_ValueId = oid, DirectedEdge_Lang = NQuad_Lang nq,
      DirectedEdge_Facets = NQuad_Facets nq\<rparr>"

definition exCreateValueEdge :: "NQuad \<Rightarrow> uint64 \<Rightarrow> DirectedEdge option" where
  "exCreateValueEdge nq sid =
     (case NQuad_ObjectValue nq of
        Some (Value_StrVal s) \<Rightarrow>
          Some \<lparr>DirectedEdge_Entity = sid, DirectedEdge_Attr = NQuad_Predicate nq,
                DirectedEdge_Value = bytes_of s, DirectedEdge_ValueType = Posting_STRING,
                DirectedEdge_ValueId = 0, DirectedEdge_Lang = NQuad_Lang nq,
                DirectedEdge_Facets = NQuad_Facets nq\<rparr>
      | _ \<Rightarrow> None)"

fun exWords :: "string \<Rightarrow> string \<Rightarrow> string list" where
  "exWords w [] = (if w = [] then [] else [w])"
| "exWords w (c # cs) =
     (if c = CHR '' '' then (if w = [] then exWords [] cs else w # exWords [] cs)
      else exWords (w @ [c]) cs)"

definition exParse :: "string \<Rightarrow> ParseError + NQuad" where
  "exParse line =
     (if line = [] then Inl ErrEmpty
      else (case exWords [] line of
              [s, p, ob] \<Rightarrow>
                (case ob of
                   CHR ''='' # lit \<Rightarrow>
                     Inr \<lparr>NQuad_Subject = s, NQuad_Predicate = p, NQuad_ObjectId = [],
                          NQuad_ObjectValue = Some (Value_StrVal lit), NQuad_Lang = [],
                          NQuad_Facets = []\<rparr>
                 | _ \<Rightarrow>
                     Inr \<lparr>NQuad_Subject = s, NQuad_Predicate = p, NQuad_ObjectId = ob,
                          NQuad_ObjectValue = None, NQuad_Lang = [], NQuad_Facets = []\<rparr>)
            | _ \<Rightarrow> Inl (ErrInvalid line)))"

definition exTrimSpace :: "string \<Rightarrow> string" where
  "exTrimSpace s =
     rev (dropWhile (\<lambda>c. c = CHR '' '' \<or> c = CHR 0x0A)
       (rev (dropWhile (\<lambda>c. c = CHR '' '' \<or> c = CHR 0x0A) s)))"

definition example_env :: "((string \<times> uint64) list, string, bytes) env" where
  "example_env =
     \<lparr>opt = \<lparr>MapBufSize = 64, IgnoreErrors = False, StoreXids = False, ExpandEdges = False\<rparr>,
      AssignUid = exAssignUid,
      getSchema = exSchema,
      validateType = (\<lambda>de objectIsUID. Some de),
      NewPosting = exNewPosting,
      Fingerprint64 = (\<lambda>bs. of_nat (length bs) + 100),
      shardFor = (\<lambda>predicate. 0),
      DataKey = (\<lambda>attr uid. 0 # bytes_of attr @ [0, ucast uid]),
      ReverseKey = (\<lambda>attr uid. 4 # bytes_of attr @ [0, ucast uid]),
      IndexKey = (\<lambda>attr tok. 2 # bytes_of attr @ 0 # bytes_of tok),
      CreateUidEdge = exCreateUidEdge,
      CreateValueEdge = exCreateValueEdge,
      Parse = exParse,
      SortAndValidate = (\<lambda>fs. Some fs),
      GetTokenizer = (\<lambda>name. if name = ''exact'' then Some name else None),
      Convert = (\<lambda>from v to. Some v),
      BuildTokens = (\<lambda>v toker. Some [map (\<lambda>b. char_of (unat b)) v]),
      Marshal = exMarshal,
      Unmarshal = exUnmarshal,
      TrimSpace = exTrimSpace\<rparr>"

definition example_mapper :: "(string \<times> uint64) list mapper" where
  "example_mapper =
     \<lparr>xids = [], shards = [[]], mapEdgeCount = 0, errCount = 0, rdfCount = 0,
      mapFileId = 0, files = []\<rparr>"

text \<open>Two reference postings, a value posting, and the three entries \<^verbatim>\<open>addMapEntry\<close>
  builds of them.\<close>

definition example_ref :: "uint64 \<Rightarrow> Posting" where
  "example_ref uid =
     \<lparr>Posting_Uid = uid, Posting_Value = [], Posting_ValType = Posting_DEFAULT,
      Posting_PostingType = Posting_REF, Posting_Facets = []\<rparr>"

definition example_val :: Posting where
  "example_val =
     \<lparr>Posting_Uid = 200, Posting_Value = [65], Posting_ValType = Posting_STRING,
      Posting_PostingType = Posting_VALUE, Posting_Facets = []\<rparr>"

definition example_e1 :: MapEntry where
  "example_e1 = \<lparr>MapEntry_Key = [2, 5], MapEntry_Uid = 9, MapEntry_Posting = None\<rparr>"

definition example_e2 :: MapEntry where
  "example_e2 = \<lparr>MapEntry_Key = [2, 5], MapEntry_Uid = 3, MapEntry_Posting = None\<rparr>"

definition example_e3 :: MapEntry where
  "example_e3 =
     \<lparr>MapEntry_Key = [1, 7, 7], MapEntry_Uid = 0, MapEntry_Posting = Some example_val\<rparr>"

text \<open>Statements and edges to run: a node statement of \<open>knows\<close>, value statements of the
  list \<open>nick\<close> and of the unlisted \<open>age\<close> with their edges, and a value statement of
  \<open>likes\<close> with the edge \<open>CreateValueEdge\<close> builds for it.\<close>

definition example_knows :: NQuad where
  "example_knows =
     \<lparr>NQuad_Subject = ''alice'', NQuad_Predicate = ''knows'', NQuad_ObjectId = ''bob'',
      NQuad_ObjectValue = None, NQuad_Lang = [], NQuad_Facets = []\<rparr>"

definition example_nick :: "bytes \<Rightarrow> NQuad" where
  "example_nick v =
     \<lparr>NQuad_Subject = ''alice'', NQuad_Predicate = ''nick'', NQuad_ObjectId = [],
      NQuad_ObjectValue = Some (Value_BytesVal v), NQuad_Lang = [], NQuad_Facets = []\<rparr>"

definition example_nick_edge :: "bytes \<Rightarrow> DirectedEdge" where
  "example_nick_edge v =
     \<lparr>DirectedEdge_Entity = 1, DirectedEdge_Attr = ''nick'', DirectedEdge_Value = v,
      DirectedEdge_ValueType = Posting_BINARY, DirectedEdge_ValueId = 0,
      DirectedEdge_Lang = [], DirectedEdge_Facets = []\<rparr>"

definition example_age :: "bytes \<Rightarrow> NQuad" where
  "example_age v =
     \<lparr>NQuad_Subject = ''alice'', NQuad_Predicate = ''age'', NQuad_ObjectId = [],
      NQuad_ObjectValue = Some (Value_BytesVal v), NQuad_Lang = [], NQuad_Facets = []\<rparr>"

definition example_age_edge :: "bytes \<Rightarrow> DirectedEdge" where
  "example_age_edge v =
     \<lparr>DirectedEdge_Entity = 1, DirectedEdge_Attr = ''age'', DirectedEdge_Value = v,
      DirectedEdge_ValueType = Posting_BINARY, DirectedEdge_ValueId = 0,
      DirectedEdge_Lang = [], DirectedEdge_Facets = []\<rparr>"

definition example_likes :: NQuad where
  "example_likes =
     \<lparr>NQuad_Subject = ''alice'', NQuad_Predicate = ''likes'', NQuad_ObjectId = [],
      NQuad_ObjectValue = Some (Value_StrVal ''tea''), NQuad_Lang = [], NQuad_Facets = []\<rparr>"

definition example_likes_edge :: DirectedEdge where
  "example_likes_edge =
     \<lparr>DirectedEdge_Entity = 1, DirectedEdge_Attr = ''likes'',
      DirectedEdge_Value = [116, 101, 97], DirectedEdge_ValueType = Posting_STRING,
      DirectedEdge_ValueId = 0, DirectedEdge_Lang = [], DirectedEdge_Facets = []\<rparr>"

text \<open>The environment with \<^verbatim>\<open>StoreXids\<close> set, and the one with \<^verbatim>\<open>IgnoreErrors\<close> set.\<close>

definition example_env_xids :: "((string \<times> uint64) list, string, bytes) env" where
  "example_env_xids = example_env\<lparr>opt := (opt example_env)\<lparr>StoreXids := True\<rparr>\<rparr>"

definition example_env_ignore :: "((string \<times> uint64) list, string, bytes) env" where
  "example_env_ignore = example_env\<lparr>opt := (opt example_env)\<lparr>IgnoreErrors := True\<rparr>\<rparr>"

text \<open>A value statement of the indexed predicate \<open>name\<close>, and its edge.\<close>

definition example_name :: NQuad where
  "example_name =
     \<lparr>NQuad_Subject = ''alice'', NQuad_Predicate = ''name'', NQuad_ObjectId = [],
      NQuad_ObjectValue = Some (Value_StrVal ''Al''), NQuad_Lang = [], NQuad_Facets = []\<rparr>"

definition example_name_edge :: DirectedEdge where
  "example_name_edge =
     \<lparr>DirectedEdge_Entity = 1, DirectedEdge_Attr = ''name'', DirectedEdge_Value = [65, 108],
      DirectedEdge_ValueType = Posting_STRING, DirectedEdge_ValueId = 0,
      DirectedEdge_Lang = [], DirectedEdge_Facets = []\<rparr>"

subsection \<open>The hash function on short inputs\<close>

text \<open>
  The hash function of the loader, \<^verbatim>\<open>farm.Fingerprint64\<close> of the library go-farm, on an
  input of at most 16 bytes: there it is the library's \<^verbatim>\<open>hashLen0to16\<close>, which reads
  the input as little-endian words (\<^verbatim>\<open>fetch32\<close>, \<^verbatim>\<open>fetch64\<close>) and mixes them with the
  constants \<^verbatim>\<open>k0\<close> and \<^verbatim>\<open>k2\<close> in \<^verbatim>\<open>uint64\<close> arithmetic. Longer inputs go other ways in the
  library; the examples do not use them.
\<close>

definition farm_k0 :: uint64 where
  "farm_k0 = 0xc3a5c85c97cb3127"

definition farm_k2 :: uint64 where
  "farm_k2 = 0x9ae16a3b2f90404f"

fun fetch :: "bytes \<Rightarrow> uint64" where
  "fetch [] = 0"
| "fetch (b # bs) = ucast b + 256 * fetch bs"

definition fetch32 :: "bytes \<Rightarrow> nat \<Rightarrow> uint64" where
  "fetch32 s i = fetch (take 4 (drop i s))"

definition fetch64 :: "bytes \<Rightarrow> nat \<Rightarrow> uint64" where
  "fetch64 s i = fetch (take 8 (drop i s))"

definition rotate64 :: "uint64 \<Rightarrow> nat \<Rightarrow> uint64" where
  "rotate64 val shift =
     (if shift = 0 then val else drop_bit shift val OR push_bit (64 - shift) val)"

definition shiftMix :: "uint64 \<Rightarrow> uint64" where
  "shiftMix val = val XOR drop_bit 47 val"

definition hashLen16Mul :: "uint64 \<Rightarrow> uint64 \<Rightarrow> uint64 \<Rightarrow> uint64" where
  "hashLen16Mul u v mul =
     (let a = (u XOR v) * mul;
          a = a XOR drop_bit 47 a;
          b = (v XOR a) * mul;
          b = b XOR drop_bit 47 b;
          b = b * mul
      in b)"

definition hashLen0to16 :: "bytes \<Rightarrow> uint64" where
  "hashLen0to16 s =
     (let slen = length s in
      if slen \<ge> 8 then
        (let mul = farm_k2 + of_nat slen * 2;
             a = fetch64 s 0 + farm_k2;
             b = fetch64 s (slen - 8);
             c = rotate64 b 37 * mul + a;
             d = (rotate64 a 25 + b) * mul
         in hashLen16Mul c d mul)
      else if slen \<ge> 4 then
        (let mul = farm_k2 + of_nat slen * 2;
             a = fetch32 s 0
         in hashLen16Mul (of_nat slen + push_bit 3 a) (fetch32 s (slen - 4)) mul)
      else if slen > 0 then
        (let a = s ! 0;
             b = s ! (drop_bit 1 slen);
             c = s ! (slen - 1);
             y = (ucast a + push_bit 8 (ucast b) :: 32 word);
             z = (of_nat slen + push_bit 2 (ucast c) :: 32 word)
         in shiftMix (ucast y * farm_k2 XOR ucast z * farm_k0) * farm_k2)
      else farm_k2)"

text \<open>The environment with that hash function.\<close>

definition example_env_farm :: "((string \<times> uint64) list, string, bytes) env" where
  "example_env_farm = example_env\<lparr>Fingerprint64 := hashLen0to16\<rparr>"

subsection \<open>A validation that converts\<close>




section \<open>Proofs\<close>

subsection \<open>Variable-length integers\<close>

lemma byte_or_top: "\<not> ((of_nat x :: byte) OR 0x80) < 0x80"
proof -
  have "(0x80 :: byte) \<le> (of_nat x :: byte) OR 0x80" by (rule le_word_or1)
  then show ?thesis by simp
qed

lemma byte_low7: "unat (((of_nat x :: byte) OR 0x80) AND 0x7f) = x mod 128"
proof -
  have m: "(0x7f :: byte) = mask 7" by (simp add: mask_eq_exp_minus_1)
  have z: "(0x80 :: byte) AND 0x7f = 0" by simp
  have "((of_nat x :: byte) OR 0x80) AND 0x7f = (of_nat x AND 0x7f) OR (0x80 AND 0x7f)"
    by (rule bit.conj_disj_distrib2)
  also have "\<dots> = of_nat x AND 0x7f" by (simp only: z) simp
  also have "\<dots> = of_nat x AND mask 7" by (simp only: m)
  also have "\<dots> = take_bit 7 (of_nat x)" by (simp add: take_bit_eq_mask)
  finally have e: "((of_nat x :: byte) OR 0x80) AND 0x7f = take_bit 7 (of_nat x)" .
  have "unat (take_bit 7 (of_nat x :: byte)) = take_bit 7 (unat (of_nat x :: byte))"
    by (rule unsigned_take_bit_eq)
  also have "\<dots> = take_bit 7 (x mod 256)" by (simp add: unat_of_nat)
  also have "\<dots> = x mod 128" by (simp add: take_bit_eq_mod mod_mod_cancel)
  finally show ?thesis by (simp only: e)
qed

lemma byte_small: "x < 128 \<Longrightarrow> unat (of_nat x :: byte) = x"
  by (simp add: unat_of_nat)

lemma byte_small_lt: "x < 128 \<Longrightarrow> (of_nat x :: byte) < 0x80"
  by (simp add: word_less_nat_alt unat_of_nat)

lemma or_push: "acc < 2 ^ s \<Longrightarrow> (acc::nat) OR push_bit s y = acc + y * 2 ^ s"
proof -
  assume a: "acc < 2 ^ s"
  have "\<And>n. \<not> bit acc n \<or> \<not> bit (push_bit s y) n"
  proof -
    fix n show "\<not> bit acc n \<or> \<not> bit (push_bit s y) n"
    proof (cases "n < s")
      case True then show ?thesis by (simp add: bit_simps)
    next
      case False
      then have "acc < 2 ^ n" using a
        by (meson leI less_le_trans one_le_numeral power_increasing)
      then have "\<not> bit acc n" by (simp add: bit_iff_odd)
      then show ?thesis by simp
    qed
  qed
  then have "acc + push_bit s y = acc OR push_bit s y" by (rule disjunctive_add)
  then show ?thesis by (simp add: push_bit_eq_mult)
qed

lemma PutUvarint_nonempty: "PutUvarint x \<noteq> []"
  by (subst PutUvarint.simps) simp

lemma Uvarint_loop_PutUvarint:
  "x < 2 ^ (64 - 7 * i) \<Longrightarrow> i \<le> 9 \<Longrightarrow> acc < 2 ^ (7 * i) \<Longrightarrow>
   Uvarint_loop (PutUvarint x @ rest) i acc (7 * i) =
     (acc + x * 2 ^ (7 * i), int i + int (length (PutUvarint x)))"
proof (induction x arbitrary: i acc rule: PutUvarint.induct)
  case (1 x)
  show ?case
  proof (cases "x \<ge> 0x80")
    case True
    have i8: "i \<le> 8"
    proof (rule ccontr)
      assume "\<not> i \<le> 8"
      with "1.prems" have "i = 9" by simp
      with "1.prems" have "x < 2" by simp
      with True show False by simp
    qed
    let ?acc = "acc + (x mod 128) * 2 ^ (7 * i)"
    have p: "PutUvarint x = (of_nat x OR 0x80) # PutUvarint (drop_bit 7 x)"
      using True by (subst PutUvarint.simps) simp
    have d: "drop_bit 7 x = x div 128" by (simp add: drop_bit_eq_div)
    have "7 + (64 - 7 * Suc i) = 64 - 7 * i" using i8 by simp
    then have "x < 2 ^ (7 + (64 - 7 * Suc i))" using "1.prems"(1) by simp
    then have x1: "x div 128 < 2 ^ (64 - 7 * Suc i)"
      by (simp add: power_add less_mult_imp_div_less mult.commute)
    have a1: "?acc < 2 ^ (7 * Suc i)"
    proof -
      have "x mod 128 < 128" by simp
      then have m: "x mod 128 \<le> 127" by linarith
      have "(x mod 128) * 2 ^ (7 * i) \<le> 127 * 2 ^ (7 * i)" by (rule mult_le_mono1 [OF m])
      moreover have "acc < 2 ^ (7 * i)" by fact
      ultimately have "?acc < 128 * 2 ^ (7 * i)" by linarith
      then show ?thesis by (simp add: power_add mult.commute)
    qed
    have ih: "Uvarint_loop (PutUvarint (drop_bit 7 x) @ rest) (Suc i) ?acc (7 * Suc i) =
       (?acc + (drop_bit 7 x) * 2 ^ (7 * Suc i), int (Suc i) + int (length (PutUvarint (drop_bit 7 x))))"
      using "1.IH"[OF True, of "Suc i" ?acc] x1 a1 i8 d by simp
    have val: "?acc + (x div 128) * 2 ^ (7 * Suc i) = acc + x * 2 ^ (7 * i)"
    proof -
      define P :: nat where "P = 2 ^ (7 * i)"
      have pw: "(2::nat) ^ (7 * Suc i) = 128 * P" by (simp add: power_add P_def)
      have "x * P = (x mod 128 + (x div 128) * 128) * P" by simp
      also have "\<dots> = (x mod 128) * P + (x div 128) * (128 * P)"
        by (simp only: distrib_right mult.assoc)
      finally have "acc + (x mod 128) * P + (x div 128) * (128 * P) = acc + x * P" by simp
      then show ?thesis by (simp only: pw P_def [symmetric])
    qed
    have "Uvarint_loop (PutUvarint x @ rest) i acc (7 * i) =
        Uvarint_loop (PutUvarint (drop_bit 7 x) @ rest) (Suc i) ?acc (7 * Suc i)"
      using "1.prems" i8 by (simp add: p byte_or_top byte_low7 or_push add.commute)
    then show ?thesis using ih val d by (simp add: p)
  next
    case False
    then have lt: "x < 128" by simp
    have p: "PutUvarint x = [of_nat x]"
      using False by (subst PutUvarint.simps) simp
    have b1: "i = 9 \<Longrightarrow> \<not> (of_nat x :: byte) > 1"
    proof -
      assume "i = 9"
      with "1.prems" have "x < 2" by simp
      then show ?thesis using lt by (simp add: word_less_nat_alt unat_of_nat)
    qed
    show ?thesis using "1.prems" lt b1
      by (auto simp: p byte_small byte_small_lt or_push)
  qed
qed

lemma Uvarint_PutUvarint:
  "x < 2 ^ 64 \<Longrightarrow> Uvarint (PutUvarint x @ rest) = (x, int (length (PutUvarint x)))"
  using Uvarint_loop_PutUvarint [of x 0 0 rest] by (simp add: Uvarint_def)

subsection \<open>The order of the entries\<close>

lemma bytes_Compare_range: "bytes_Compare a b \<in> {- 1, 0, 1}"
  by (induction a b rule: bytes_Compare.induct) auto

lemma bytes_Compare_eq: "bytes_Compare a b = 0 \<longleftrightarrow> a = b"
  by (induction a b rule: bytes_Compare.induct) auto

lemma bytes_Compare_lt: "bytes_Compare a b < 0 \<longleftrightarrow> (a, b) \<in> lexord {(x, y). x < y}"
  by (induction a b rule: bytes_Compare.induct) auto

lemma bytes_Compare_le: "bytes_Compare a b \<le> 0 \<longleftrightarrow> key_le a b"
  using bytes_Compare_eq [of a b] bytes_Compare_lt [of a b]
  by (auto simp: key_le_def)

lemma bytes_Compare_flip: "bytes_Compare b a = - bytes_Compare a b"
  by (induction a b rule: bytes_Compare.induct) auto

lemma bytes_Compare_trans:
  "bytes_Compare a b < 0 \<Longrightarrow> bytes_Compare b c < 0 \<Longrightarrow> bytes_Compare a c < 0"
proof -
  have "trans {(x :: byte, y). x < y}" by (auto simp: trans_def)
  then have "trans (lexord {(x :: byte, y). x < y})" by (rule lexord_trans [THEN transI, rotated 2]) 
  then show "bytes_Compare a b < 0 \<Longrightarrow> bytes_Compare b c < 0 \<Longrightarrow> bytes_Compare a c < 0"
    unfolding bytes_Compare_lt by (rule transD)
qed

lemma less_alt:
  "less a b \<longleftrightarrow>
     bytes_Compare (MapEntry_Key a) (MapEntry_Key b) < 0 \<or>
     (MapEntry_Key a = MapEntry_Key b \<and> tieBreak a < tieBreak b)"
  using bytes_Compare_eq [of "MapEntry_Key a" "MapEntry_Key b"]
  by (auto simp: less_def tieBreak_def Let_def)

lemma bytes_Compare_asym: "bytes_Compare a b < 0 \<Longrightarrow> \<not> bytes_Compare b a < 0"
  using bytes_Compare_flip [of a b] by linarith

lemma bytes_Compare_total: "\<not> bytes_Compare b a < 0 \<Longrightarrow> bytes_Compare a b \<le> 0"
  using bytes_Compare_flip [of a b] by linarith

lemma bytes_Compare_refl: "\<not> bytes_Compare a a < 0"
  using bytes_Compare_eq [of a a] by simp

lemma less_asym: "less a b \<Longrightarrow> \<not> less b a"
  unfolding less_alt
  using bytes_Compare_asym [of "MapEntry_Key a" "MapEntry_Key b"]
    bytes_Compare_refl [of "MapEntry_Key a"] bytes_Compare_refl [of "MapEntry_Key b"]
    order.asym [of "tieBreak a" "tieBreak b"]
  by metis

lemma less_trans: "less a b \<Longrightarrow> less b c \<Longrightarrow> less a c"
  unfolding less_alt
  using bytes_Compare_trans [of "MapEntry_Key a" "MapEntry_Key b" "MapEntry_Key c"]
    order.strict_trans [of "tieBreak a" "tieBreak b" "tieBreak c"]
  by metis

lemma not_less_ordered:
  "\<not> less b a \<Longrightarrow>
     key_le (MapEntry_Key a) (MapEntry_Key b) \<and>
     (MapEntry_Key a = MapEntry_Key b \<longrightarrow> tieBreak a \<le> tieBreak b)"
  unfolding less_alt bytes_Compare_le [symmetric]
  using bytes_Compare_total [where a = "MapEntry_Key a" and b = "MapEntry_Key b"]
    linorder_not_less [of "tieBreak b" "tieBreak a"]
  by metis

lemma less_negtrans: "less x z \<Longrightarrow> less x l \<or> less l z"
proof -
  assume xz: "less x z"
  let ?kx = "MapEntry_Key x" and ?kl = "MapEntry_Key l" and ?kz = "MapEntry_Key z"
  consider (lt) "bytes_Compare ?kx ?kl < 0" | (eq) "?kx = ?kl" | (gt) "bytes_Compare ?kl ?kx < 0"
    using bytes_Compare_total [where a = ?kx and b = ?kl] bytes_Compare_eq [of ?kx ?kl]
    by (cases "bytes_Compare ?kl ?kx < 0") force+
  then show ?thesis
  proof cases
    case lt
    then show ?thesis by (simp add: less_alt)
  next
    case eq
    with xz show ?thesis unfolding less_alt by auto
  next
    case gt
    from xz have "bytes_Compare ?kx ?kz < 0 \<or> ?kx = ?kz" by (auto simp: less_alt)
    with gt have "bytes_Compare ?kl ?kz < 0"
      using bytes_Compare_trans [of ?kl ?kx ?kz] by auto
    then show ?thesis by (simp add: less_alt)
  qed
qed

lemma mset_insert_by: "mset (insert_by lt x pre) = add_mset x (mset pre)"
proof (induction lt x pre rule: insert_by.induct)
  case (1 lt x pre)
  show ?case
  proof (cases "pre \<noteq> [] \<and> lt x (last pre)")
    case True
    then have "mset (butlast pre) + {#last pre#} = mset pre"
      using append_butlast_last_id [of pre] mset_append [of "butlast pre" "[last pre]"] by simp
    with True 1 show ?thesis by (subst insert_by.simps) (simp add: add_mset_commute)
  next
    case False
    then show ?thesis by (subst insert_by.simps) auto
  qed
qed

lemma set_insert_by: "set (insert_by lt x pre) = insert x (set pre)"
  using mset_insert_by [of lt x pre, THEN arg_cong, of set_mset] by simp

lemma mset_foldl_insert_by:
  "mset (foldl (\<lambda>pre x. insert_by lt x pre) acc xs) = mset acc + mset xs"
  by (induction xs arbitrary: acc) (simp_all add: mset_insert_by)

lemma mset_sort_Slice: "mset (sort_Slice lt xs) = mset xs"
  by (simp add: sort_Slice_def mset_foldl_insert_by)

lemma sorted_insert_by:
  "sorted_wrt (\<lambda>a b. \<not> less b a) pre \<Longrightarrow>
     sorted_wrt (\<lambda>a b. \<not> less b a) (insert_by less x pre)"
proof (induction less x pre rule: insert_by.induct)
  case (1 x pre)
  show ?case
  proof (cases "pre \<noteq> [] \<and> less x (last pre)")
    case True
    then have pre: "pre = butlast pre @ [last pre]" by simp
    with "1.prems" have sb: "sorted_wrt (\<lambda>a b. \<not> less b a) (butlast pre)"
      and le: "\<forall>z \<in> set (butlast pre). \<not> less (last pre) z"
      by (metis sorted_wrt_append, metis sorted_wrt_append list.set_intros(1))
    from True have "\<not> less (last pre) x" using less_asym by blast
    with le have "\<forall>z \<in> set (insert_by less x (butlast pre)). \<not> less (last pre) z"
      by (simp add: set_insert_by)
    moreover have "sorted_wrt (\<lambda>a b. \<not> less b a) (insert_by less x (butlast pre))"
      using "1.hyps" True sb by blast
    ultimately have "sorted_wrt (\<lambda>a b. \<not> less b a) (insert_by less x (butlast pre) @ [last pre])"
      by (simp add: sorted_wrt_append)
    with True show ?thesis by (subst insert_by.simps) simp
  next
    case False
    have "\<not> less x z" if z: "z \<in> set pre" for z
    proof
      assume xz: "less x z"
      from z have ne: "pre \<noteq> []" by auto
      then have pre: "pre = butlast pre @ [last pre]" by simp
      from ne False have nl: "\<not> less x (last pre)" by simp
      with xz less_negtrans have lz: "less (last pre) z" by blast
      from z pre have "z \<in> set (butlast pre) \<or> z = last pre"
        by (metis Un_iff empty_iff empty_set insert_iff list.simps(15) set_append)
      then show False
      proof
        assume "z \<in> set (butlast pre)"
        with "1.prems" pre have "\<not> less (last pre) z"
          by (metis sorted_wrt_append list.set_intros(1))
        with lz show False by simp
      next
        assume "z = last pre"
        with lz less_asym show False by blast
      qed
    qed
    with "1.prems" have "sorted_wrt (\<lambda>a b. \<not> less b a) (pre @ [x])"
      by (simp add: sorted_wrt_append)
    with False show ?thesis by (subst insert_by.simps) auto
  qed
qed

lemma sorted_foldl_insert_by:
  "sorted_wrt (\<lambda>a b. \<not> less b a) acc \<Longrightarrow>
     sorted_wrt (\<lambda>a b. \<not> less b a) (foldl (\<lambda>pre x. insert_by less x pre) acc xs)"
  by (induction xs arbitrary: acc) (simp_all add: sorted_insert_by)

lemma sorted_sort_Slice: "sorted_wrt (\<lambda>a b. \<not> less b a) (sort_Slice less xs)"
  by (simp add: sort_Slice_def sorted_foldl_insert_by)

lemma sort_Slice_adjacent:
  assumes "Suc i < length (sort_Slice less xs)"
  shows "\<not> less (sort_Slice less xs ! Suc i) (sort_Slice less xs ! i)"
  using sorted_sort_Slice [of xs] assms
  by (simp add: sorted_wrt_iff_nth_less)

subsection \<open>Decoding and encoding a buffer\<close>

lemma frames_simps [simp]:
  "frames env [] = []"
  "frames env (me # mes) = entryBytes env me @ frames env mes"
  "frames env (xs @ ys) = frames env xs @ frames env ys"
  by (simp_all add: frames_def)

lemma decodeEntries_Nil: "decodeEntries env [] acc = Some acc"
  by (subst decodeEntries.simps) simp

lemma decodeEntries_entry:
  assumes "lossless env me"
  shows "decodeEntries env (entryBytes env me @ rest) acc = decodeEntries env rest (acc @ [me])"
proof -
  from assms obtain bs where
    bs: "Marshal env me = Some bs" "Unmarshal env bs = Some me" "length bs < 2 ^ 64"
    by (auto simp: lossless_def split: option.splits)
  let ?pre = "PutUvarint (length bs)"
  have eb: "entryBytes env me = ?pre @ bs"
    by (simp add: entryBytes_def MapEntry_Size_def bs)
  have uv: "Uvarint (?pre @ bs @ rest) = (length bs, int (length ?pre))"
    using bs(3) by (rule Uvarint_PutUvarint)
  have ne: "?pre \<noteq> []" by (rule PutUvarint_nonempty)
  show ?thesis
    by (subst decodeEntries.simps) (simp add: eb uv ne bs)
qed

lemma decodeEntries_frames:
  "list_all (lossless env) mes \<Longrightarrow> decodeEntries env (frames env mes) acc = Some (acc @ mes)"
proof (induction mes arbitrary: acc)
  case Nil
  then show ?case by (simp add: decodeEntries_Nil)
next
  case (Cons me mes)
  then show ?case by (simp add: decodeEntries_entry)
qed

lemma encodeEntries_out:
  "encodeEntries env buf out mes = Some (buf', out') \<Longrightarrow>
     out' = out @ frames env mes \<and> length buf' + length (frames env mes) = length buf"
proof (induction mes arbitrary: buf out)
  case Nil
  then show ?case by simp
next
  case (Cons me mes)
  from Cons.prems obtain bs where bs: "Marshal env me = Some bs"
    by (auto simp: Let_def split: if_splits option.splits)
  let ?pre = "PutUvarint (MapEntry_Size env me)"
  from Cons.prems bs have fit: "length ?pre \<le> length buf" "length bs \<le> length buf - length ?pre"
    and rec: "encodeEntries env (drop (length bs) (drop (length ?pre) buf)) (out @ ?pre @ bs) mes
                = Some (buf', out')"
    by (auto simp: Let_def split: if_splits)
  from Cons.IH [OF rec] have
    o: "out' = (out @ ?pre @ bs) @ frames env mes" and
    l: "length buf' + length (frames env mes) = length buf - length ?pre - length bs"
    by simp_all
  from l fit have "length buf' + (length ?pre + length bs + length (frames env mes)) = length buf"
    by linarith
  with o show ?case by (simp add: entryBytes_def bs)
qed

lemma encodeEntries_fits:
  "list_all (lossless env) mes \<Longrightarrow> length (frames env mes) \<le> length buf \<Longrightarrow>
     encodeEntries env buf out mes =
       Some (drop (length (frames env mes)) buf, out @ frames env mes)"
proof (induction mes arbitrary: buf out)
  case Nil
  then show ?case by simp
next
  case (Cons me mes)
  from Cons.prems obtain bs where bs: "Marshal env me = Some bs"
    by (auto simp: lossless_def split: option.splits)
  let ?pre = "PutUvarint (MapEntry_Size env me)"
  have eb: "entryBytes env me = ?pre @ bs" by (simp add: entryBytes_def bs)
  let ?buf = "drop (length bs) (drop (length ?pre) buf)"
  have "length (frames env mes) \<le> length ?buf" using Cons.prems(2) by (simp add: eb)
  with Cons.prems have "encodeEntries env ?buf (out @ ?pre @ bs) mes =
      Some (drop (length (frames env mes)) ?buf, (out @ ?pre @ bs) @ frames env mes)"
    by (intro Cons.IH) simp_all
  then show ?case using Cons.prems(2) by (simp add: eb bs Let_def add.commute add.left_commute)
qed

lemma length_frames_mset:
  "mset xs = mset ys \<Longrightarrow> length (frames env xs) = length (frames env ys)"
proof -
  assume eq: "mset xs = mset ys"
  have "length (frames env zs) = sum_mset (image_mset (\<lambda>me. length (entryBytes env me)) (mset zs))"
    for zs
    by (induction zs) simp_all
  then show ?thesis using eq by simp
qed

lemma list_all_mset:
  "mset xs = mset ys \<Longrightarrow> list_all P xs = list_all P ys"
  by (metis list_all_iff set_mset_mset)

lemma sortedRegion_decoded:
  assumes "decodeEntries env buf [] = Some entries" and "sortedRegion env buf = Some region"
  shows "region = frames env (sort_Slice less entries) \<and> length region = length buf"
proof -
  from assms obtain buf' where
    enc: "encodeEntries env buf [] (sort_Slice less entries) = Some (buf', region)"
    and emp: "length buf' = 0"
    by (auto simp: sortedRegion_def split: option.splits if_splits)
  from encodeEntries_out [OF enc] emp show ?thesis by simp
qed

lemma sortedRegion_frames:
  assumes "list_all (lossless env) mes"
  shows "sortedRegion env (frames env mes) = Some (frames env (sort_Slice less mes))"
proof -
  have m: "mset (sort_Slice less mes) = mset mes" by (rule mset_sort_Slice)
  have dec: "decodeEntries env (frames env mes) [] = Some mes"
    using decodeEntries_frames [OF assms, of "[]"] by simp
  have all: "list_all (lossless env) (sort_Slice less mes)"
    using assms list_all_mset [OF m] by simp
  have len: "length (frames env (sort_Slice less mes)) = length (frames env mes)"
    by (rule length_frames_mset [OF m])
  have "encodeEntries env (frames env mes) [] (sort_Slice less mes) =
      Some (drop (length (frames env (sort_Slice less mes))) (frames env mes),
            [] @ frames env (sort_Slice less mes))"
    by (rule encodeEntries_fits [OF all]) (simp add: len)
  then show ?thesis by (simp add: sortedRegion_def dec len)
qed

lemma addMapEntry_shards:
  assumes "addMapEntry env key p shard m = Some m'"
  shows "shard < length (shards m) \<and> length (shards m') = length (shards m) \<and>
         shards m' = (shards m)[shard := shards m ! shard @ entryBytes env (newMapEntry key p)]"
  using assms
  by (auto simp: addMapEntry_def entryBytes_def Let_def split: if_splits option.splits)

lemma addMapEntries_buffer:
  assumes "addMapEntries env calls m = Some m'" and "s < length (shards m)"
  shows "length (shards m') = length (shards m) \<and>
         shards m' ! s = shards m ! s @
           frames env (map (\<lambda>(key, p, shard). newMapEntry key p)
             (filter (\<lambda>(key, p, shard). shard = s) calls))"
  using assms
proof (induction calls arbitrary: m)
  case Nil
  then show ?case by simp
next
  case (Cons c calls)
  obtain key p shard where c: "c = (key, p, shard)" by (cases c)
  from Cons.prems c obtain m1 where
    m1: "addMapEntry env key p shard m = Some m1" and rest: "addMapEntries env calls m1 = Some m'"
    by (auto split: option.splits)
  note a = addMapEntry_shards [OF m1]
  from Cons.IH [OF rest] a Cons.prems(2) have
    ih: "length (shards m') = length (shards m1)"
        "shards m' ! s = shards m1 ! s @
           frames env (map (\<lambda>(key, p, shard). newMapEntry key p)
             (filter (\<lambda>(key, p, shard). shard = s) calls))"
    by simp_all
  show ?case
  proof (cases "shard = s")
    case True
    with a ih Cons.prems(2) show ?thesis by (simp add: c)
  next
    case False
    with a ih Cons.prems(2) show ?thesis by (simp add: c)
  qed
qed

subsection \<open>Postings\<close>


lemma createPostings_cases:
  assumes "createPostings env nq de = Some (fwd, rev', de')"
  obtains (forward) d p where
      "validateType env de (NQuad_ObjectValue nq = None) = Some d"
      "NewPosting env d = Some p"
      "SchemaUpdate_Directive (getSchema env (NQuad_Predicate nq)) \<noteq> SchemaUpdate_REVERSE"
      "rev' = None" "de' = d"
      "fwd = (if NQuad_ObjectValue nq \<noteq> None then p\<lparr>Posting_Uid := disambiguator env nq d\<rparr> else p)
               \<lparr>Posting_Facets := NQuad_Facets nq\<rparr>"
  | (reverse) d p d2 rp where
      "validateType env de True = Some d"
      "NewPosting env d = Some p"
      "SchemaUpdate_Directive (getSchema env (NQuad_Predicate nq)) = SchemaUpdate_REVERSE"
      "NQuad_ObjectValue nq = None"
      "validateType env (swapEnds d) True = Some d2"
      "NewPosting env d2 = Some rp"
      "rev' = Some rp" "de' = swapEnds d2"
      "fwd = p\<lparr>Posting_Facets := NQuad_Facets nq\<rparr>"
proof -
  from assms obtain d p where
    d: "validateType env de (NQuad_ObjectValue nq = None) = Some d" and
    p: "NewPosting env d = Some p"
    by (auto simp: createPostings_def split: option.splits)
  let ?fwd = "(if NQuad_ObjectValue nq \<noteq> None then p\<lparr>Posting_Uid := disambiguator env nq d\<rparr> else p)
               \<lparr>Posting_Facets := NQuad_Facets nq\<rparr>"
  show thesis
  proof (cases "SchemaUpdate_Directive (getSchema env (NQuad_Predicate nq)) = SchemaUpdate_REVERSE")
    case False
    with assms d p have "rev' = None" "de' = d" "fwd = ?fwd"
      by (auto simp: createPostings_def disambiguator_def Let_def)
    with d p False show thesis by (intro forward)
  next
    case True
    with assms d p have ov: "NQuad_ObjectValue nq = None"
      by (auto simp: createPostings_def Let_def split: if_splits)
    from assms d p True ov obtain d2 where
      d2: "validateType env (swapEnds d) True = Some d2"
      by (cases "validateType env (swapEnds d) True")
         (auto simp: createPostings_def swapEnds_def Let_def)
    from assms d p True ov d2 obtain rp where
      rp: "NewPosting env d2 = Some rp"
      by (cases "NewPosting env d2")
         (auto simp: createPostings_def swapEnds_def Let_def)
    from assms d p True ov d2 rp have
      "rev' = Some rp" "de' = swapEnds d2" "fwd = p\<lparr>Posting_Facets := NQuad_Facets nq\<rparr>"
      by (auto simp: createPostings_def swapEnds_def Let_def)
    with d p True ov d2 rp show thesis by (intro reverse) simp_all
  qed
qed

lemma MaxUint64_unat: "unat MaxUint64 = 2 ^ 64 - 1"
  by (simp add: MaxUint64_def)

text \<open>Two values of \<^verbatim>\<open>farm.Fingerprint64\<close> that are published with the library and its
  ports: those of \<^verbatim>\<open>abc\<close> and of \<^verbatim>\<open>foo\<close>. And the hash of the empty input is \<^verbatim>\<open>k2\<close>.\<close>

lemma hashLen0to16_known:
  "hashLen0to16 (bytes_of ''abc'') = 2640714258260161385"
  "hashLen0to16 (bytes_of ''foo'') = 6150913649986995171"
  "hashLen0to16 [] = 0x9ae16a3b2f90404f"
  by code_simp+

text \<open>No hash function from byte strings to 64 bits tells all values apart.\<close>

lemma hash_collision:
  fixes fp :: "bytes \<Rightarrow> uint64"
  shows "\<exists>v1 v2. v1 \<noteq> v2 \<and> fp v1 = fp v2"
proof (rule ccontr)
  assume "\<not> (\<exists>v1 v2. v1 \<noteq> v2 \<and> fp v1 = fp v2)"
  then have "inj fp" by (auto simp: inj_on_def)
  moreover have "finite (range fp)" by (rule finite_subset [OF subset_UNIV]) simp
  ultimately have "finite (UNIV :: bytes set)" by (rule finite_imageD [rotated])
  then show False by (simp add: infinite_UNIV_listI)
qed

lemma processEdge_reverse:
  assumes pe: "processEdge env nq sid oid de m = Some m'"
    and cp: "createPostings env nq de = Some (fwd, Some rp, de')"
  shows "\<exists>post.
           shards m' ! shardFor env (NQuad_Predicate nq) =
             shards m ! shardFor env (NQuad_Predicate nq) @
             entryBytes env (newMapEntry (DataKey env (NQuad_Predicate nq) sid) fwd) @
             entryBytes env (newMapEntry (ReverseKey env (NQuad_Predicate nq) oid) rp) @ post"
proof -
  let ?s = "shardFor env (NQuad_Predicate nq)"
  from cp have ov: "NQuad_ObjectValue nq = None"
    by (cases rule: createPostings_cases) simp_all
  from pe cp obtain m1 where
    m1: "addMapEntry env (DataKey env (NQuad_Predicate nq) sid) fwd ?s m = Some m1"
    by (auto simp: processEdge_def Let_def split: option.splits)
  from pe cp m1 obtain m2 where
    m2: "addMapEntry env (ReverseKey env (NQuad_Predicate nq) oid) rp ?s m1 = Some m2"
    by (auto simp: processEdge_def Let_def split: option.splits)
  from pe cp m1 m2 ov have last:
    "(if ExpandEdges (opt env) then
        addMapEntry env (DataKey env ''_predicate_'' sid)
          (createPredicatePosting env (NQuad_Predicate nq)) (shardFor env ''_predicate_'') m2
      else Some m2) = Some m'"
    by (auto simp: processEdge_def addIndexMapEntries_def Let_def split: if_splits)
  note a1 = addMapEntry_shards [OF m1]
  note a2 = addMapEntry_shards [OF m2]
  from a1 a2 have b2: "shards m2 ! ?s = shards m ! ?s @
      entryBytes env (newMapEntry (DataKey env (NQuad_Predicate nq) sid) fwd) @
      entryBytes env (newMapEntry (ReverseKey env (NQuad_Predicate nq) oid) rp)"
    by simp
  show ?thesis
  proof (cases "ExpandEdges (opt env)")
    case False
    with last b2 show ?thesis by simp
  next
    case True
    with last have m3: "addMapEntry env (DataKey env ''_predicate_'' sid)
          (createPredicatePosting env (NQuad_Predicate nq)) (shardFor env ''_predicate_'') m2 = Some m'"
      by simp
    note a3 = addMapEntry_shards [OF m3]
    show ?thesis
    proof (cases "shardFor env ''_predicate_'' = ?s")
      case True
      with a3 a2 b2 show ?thesis by simp
    next
      case False
      with a3 a2 b2 show ?thesis by simp
    qed
  qed
qed

lemma processEdge_node:
  assumes ov: "NQuad_ObjectValue nq = None"
    and cp: "createPostings env nq de = Some (fwd, rev', de')"
  shows "processEdge env nq sid oid de m =
           addMapEntries env (nodeEntries env nq sid oid fwd rev') m"
proof (cases rev')
  case None
  with ov cp show ?thesis
    by (simp add: processEdge_def addIndexMapEntries_def nodeEntries_def Let_def
        split: option.splits)
next
  case (Some rp)
  with ov cp show ?thesis
    by (simp add: processEdge_def addIndexMapEntries_def nodeEntries_def Let_def
        split: option.splits)
qed

lemma processNQuad_node:
  assumes ov: "NQuad_ObjectValue nq = None"
    and s: "lookupUid env k (NQuad_Subject nq) m = Ok (sid, m1)"
    and ob: "lookupUid env k (NQuad_ObjectId nq) m1 = Ok (oid, m2)"
  shows "processNQuad env (Suc k) nq m =
           of_option (processEdge env nq sid oid (CreateUidEdge env nq sid oid) m2)"
  by (simp add: s ob ov)

lemma createPostings_reverse_literal:
  assumes "SchemaUpdate_Directive (getSchema env (NQuad_Predicate nq)) = SchemaUpdate_REVERSE"
    and "NQuad_ObjectValue nq \<noteq> None"
  shows "createPostings env nq de = None"
proof (cases "createPostings env nq de")
  case None
  then show ?thesis .
next
  case (Some r)
  obtain fwd rev' de' where "r = (fwd, rev', de')" by (cases r)
  with Some have "createPostings env nq de = Some (fwd, rev', de')" by simp
  then show ?thesis using assms by (cases rule: createPostings_cases) simp_all
qed

lemma processNQuad_reverse_literal:
  assumes "SchemaUpdate_Directive (getSchema env (NQuad_Predicate nq)) = SchemaUpdate_REVERSE"
    and "NQuad_ObjectValue nq \<noteq> None"
  shows "processNQuad env k nq m \<noteq> Ok m'"
proof (cases k)
  case 0
  then show ?thesis by simp
next
  case (Suc j)
  have "processEdge env nq sid oid de m1 = None" for sid oid de m1
    by (simp add: processEdge_def createPostings_reverse_literal [OF assms])
  then show ?thesis using assms(2) Suc
    by (auto simp: of_option_def split: result.splits option.splits)
qed

subsection \<open>Resolving identifiers\<close>

lemma lookupUid_plain:
  assumes "AssignUid env (xids m) xid = (uid, isNew, xs)"
    and "\<not> isNew \<or> \<not> StoreXids (opt env) \<or> HasPrefix xid ''_:''"
  shows "lookupUid env (Suc k) xid m = Ok (uid, m\<lparr>xids := xs\<rparr>)"
  using assms by (auto simp: Let_def)

lemma processNQuad_xid:
  assumes idem: "idempotent env"
    and a: "AssignUid env xs0 xid = (uid, isNew, xs)" and x: "xids m = xs"
  shows "processNQuad env (Suc (Suc k)) (xidNQuad xid) m =
     (case AssignUid env xs xid of
        (uid', isNew', xs') \<Rightarrow>
          (case CreateValueEdge env (xidNQuad xid) uid' of
             None \<Rightarrow> Fatal
           | Some de \<Rightarrow> of_option (processEdge env (xidNQuad xid) uid' 0 de (m\<lparr>xids := xs'\<rparr>))))"
proof -
  obtain uid' isNew' xs' where b: "AssignUid env xs xid = (uid', isNew', xs')"
    by (cases "AssignUid env xs xid") auto
  from idem a b have "\<not> isNew'"
    by (auto simp: idempotent_def split: prod.splits dest!: spec [of _ xs0] spec [of _ xid])
  with b x have lk: "lookupUid env (Suc k) xid m = Ok (uid', m\<lparr>xids := xs'\<rparr>)"
    by simp
  have s: "NQuad_Subject (xidNQuad xid) = xid" "NQuad_ObjectValue (xidNQuad xid) \<noteq> None"
    by (simp_all add: xidNQuad_def)
  show ?thesis
    by (simp only: processNQuad.simps s lk b) simp
qed

lemma lookupUid_fuel:
  assumes "idempotent env"
  shows "lookupUid env (Suc (Suc (Suc k))) xid m = lookupUid env (Suc (Suc (Suc 0))) xid m \<and>
         lookupUid env (Suc (Suc (Suc k))) xid m \<noteq> OutOfFuel"
proof -
  obtain uid isNew xs where a: "AssignUid env (xids m) xid = (uid, isNew, xs)"
    by (cases "AssignUid env (xids m) xid") auto
  have p: "processNQuad env (Suc (Suc j)) (xidNQuad xid) (m\<lparr>xids := xs\<rparr>) =
     (case AssignUid env xs xid of
        (uid', isNew', xs') \<Rightarrow>
          (case CreateValueEdge env (xidNQuad xid) uid' of
             None \<Rightarrow> Fatal
           | Some de \<Rightarrow> of_option (processEdge env (xidNQuad xid) uid' 0 de
                          (m\<lparr>xids := xs, xids := xs'\<rparr>))))" for j
    by (rule processNQuad_xid [OF assms a]) simp
  have ne: "processNQuad env (Suc (Suc j)) (xidNQuad xid) (m\<lparr>xids := xs\<rparr>) \<noteq> OutOfFuel" for j
    unfolding p by (auto simp: of_option_def split: prod.splits option.splits)
  have eq: "processNQuad env (Suc (Suc j)) (xidNQuad xid) (m\<lparr>xids := xs\<rparr>) =
            processNQuad env (Suc (Suc 0)) (xidNQuad xid) (m\<lparr>xids := xs\<rparr>)" for j
    unfolding p ..
  have l: "lookupUid env (Suc (Suc (Suc j))) xid m =
     (if \<not> isNew \<or> \<not> StoreXids (opt env) then Ok (uid, m\<lparr>xids := xs\<rparr>)
      else if HasPrefix xid ''_:'' then Ok (uid, m\<lparr>xids := xs\<rparr>)
      else (case processNQuad env (Suc (Suc j)) (xidNQuad xid) (m\<lparr>xids := xs\<rparr>) of
              Fatal \<Rightarrow> Fatal | OutOfFuel \<Rightarrow> OutOfFuel | Ok m' \<Rightarrow> Ok (uid, m')))" for j
    using a by (simp add: Let_def)
  have "lookupUid env (Suc (Suc (Suc k))) xid m = lookupUid env (Suc (Suc (Suc 0))) xid m"
    unfolding l eq [of k] ..
  moreover have "lookupUid env (Suc (Suc (Suc k))) xid m \<noteq> OutOfFuel"
    unfolding l using ne [of k] by (auto split: result.splits)
  ultimately show ?thesis ..
qed

lemma processNQuad_fuel:
  assumes "idempotent env"
  shows "processNQuad env (Suc (Suc (Suc (Suc k)))) nq m =
           processNQuad env (Suc (Suc (Suc (Suc 0)))) nq m \<and>
         processNQuad env (Suc (Suc (Suc (Suc k)))) nq m \<noteq> OutOfFuel"
proof -
  note lf = lookupUid_fuel [OF assms]
  have eq: "lookupUid env (Suc (Suc (Suc k))) xid m' = lookupUid env (Suc (Suc (Suc 0))) xid m'"
    for xid m' using lf by blast
  have ne: "lookupUid env (Suc (Suc (Suc 0))) xid m' \<noteq> OutOfFuel" for xid m'
    using lf [of 0] by blast
  have "processNQuad env (Suc (Suc (Suc (Suc k)))) nq m =
        processNQuad env (Suc (Suc (Suc (Suc 0)))) nq m"
    by (simp only: processNQuad.simps eq)
  moreover have "processNQuad env (Suc (Suc (Suc (Suc 0)))) nq m \<noteq> OutOfFuel"
    using ne by (auto simp: of_option_def split: result.splits option.splits)
  ultimately show ?thesis by simp
qed

lemma example_idempotent: "idempotent example_env_xids"
proof -
  have "\<not> fst (snd (exAssignUid (snd (snd (exAssignUid xs xid))) xid))" for xs xid
  proof (cases "map_of xs xid")
    case None
    then have "map_of (xs @ [(xid, of_nat (length xs) + 1)]) xid = Some (of_nat (length xs) + 1)"
      by (simp add: map_add_def)
    with None show ?thesis by (simp add: exAssignUid_def)
  next
    case (Some u)
    then show ?thesis by (simp add: exAssignUid_def)
  qed
  then have "exAssignUid xs xid = (u, a, b) \<Longrightarrow> \<not> fst (snd (exAssignUid b xid))"
    for xs xid u a b
    by (metis snd_conv)
  then show ?thesis
    by (simp add: idempotent_def example_env_xids_def example_env_def split: prod.splits)
qed

subsection \<open>Lines and errors\<close>

lemma writeMapEntriesToFile_counters:
  "writeMapEntriesToFile env buf i m = Some m' \<Longrightarrow>
     errCount m' = errCount m \<and> mapEdgeCount m' = mapEdgeCount m \<and>
     rdfCount m' = rdfCount m \<and> xids m' = xids m \<and> shards m' = shards m"
  by (auto simp: writeMapEntriesToFile_def Let_def split: option.splits)

lemma flushFull_counters:
  "flushFull env idxs m = Some m' \<Longrightarrow>
     errCount m' = errCount m \<and> mapEdgeCount m' = mapEdgeCount m \<and>
     rdfCount m' = rdfCount m \<and> xids m' = xids m"
proof (induction idxs arbitrary: m)
  case Nil
  then show ?case by simp
next
  case (Cons i idxs)
  show ?case
  proof (cases "length (shards m ! i) \<ge> MapBufSize (opt env)")
    case False
    with Cons show ?thesis by simp
  next
    case True
    with Cons.prems obtain m1 where
      w: "writeMapEntriesToFile env (shards m ! i) i m = Some m1" and
      r: "flushFull env idxs (m1\<lparr>shards := (shards m1)[i := []]\<rparr>) = Some m'"
      by (auto split: option.splits)
    from Cons.IH [OF r] writeMapEntriesToFile_counters [OF w] show ?thesis by simp
  qed
qed

lemma parseNQuad_Parse: "parseNQuad env line = Parse env line"
  by (simp add: parseNQuad_def split: sum.splits)

lemma processRDF_empty:
  "Parse env line = Inl ErrEmpty \<Longrightarrow> processRDF env k line m = Ok (None, m)"
  by (simp add: processRDF_def parseNQuad_Parse)

lemma processRDF_malformed:
  "Parse env line = Inl e \<Longrightarrow> e \<noteq> ErrEmpty \<Longrightarrow>
     processRDF env k line m = Ok (Some (ParseFailed e line), m)"
  by (simp add: processRDF_def parseNQuad_Parse)

subsection \<open>Counting entries\<close>

lemma addMapEntry_count:
  "addMapEntry env key p shard m = Some m' \<Longrightarrow>
     mapEdgeCount m' = mapEdgeCount m + 1 \<and> xids m' = xids m"
  by (auto simp: addMapEntry_def Let_def split: if_splits option.splits)

lemma addTokenEntries_count:
  "addTokenEntries env nq de toks m = Some m' \<Longrightarrow>
     mapEdgeCount m' = mapEdgeCount m + int (length toks) \<and> xids m' = xids m"
proof (induction toks arbitrary: m)
  case Nil
  then show ?case by simp
next
  case (Cons t toks)
  from Cons.prems obtain m1 where
    a: "addMapEntry env (IndexKey env (NQuad_Predicate nq) t)
             \<lparr>Posting_Uid = DirectedEdge_Entity de, Posting_Value = [],
              Posting_ValType = Posting_DEFAULT, Posting_PostingType = Posting_REF,
              Posting_Facets = []\<rparr>
             (shardFor env (NQuad_Predicate nq)) m = Some m1" and
    r: "addTokenEntries env nq de toks m1 = Some m'"
    by (auto split: option.splits)
  from Cons.IH [OF r] addMapEntry_count [OF a] show ?case by simp
qed

lemma addTokenizerEntries_count:
  "addTokenizerEntries env nq de sch names m = Some m' \<Longrightarrow>
     mapEdgeCount m' = mapEdgeCount m + int (length (tokensOf env de sch names)) \<and>
     xids m' = xids m"
proof (induction names arbitrary: m)
  case Nil
  then show ?case by simp
next
  case (Cons n names)
  from Cons.prems obtain toker schemaVal toks m1 where
    g: "GetTokenizer env n = Some toker"
       "Convert env (DirectedEdge_ValueType de) (DirectedEdge_Value de)
          (SchemaUpdate_ValueType sch) = Some schemaVal"
       "BuildTokens env schemaVal toker = Some toks" and
    a: "addTokenEntries env nq de toks m = Some m1" and
    r: "addTokenizerEntries env nq de sch names m1 = Some m'"
    by (auto split: option.splits)
  from Cons.IH [OF r] addTokenEntries_count [OF a] g show ?case by simp
qed

lemma addIndexMapEntries_count:
  "addIndexMapEntries env nq de m = Some m' \<Longrightarrow>
     mapEdgeCount m' = mapEdgeCount m +
       (if NQuad_ObjectValue nq \<noteq> None
        then int (length (tokensOf env de (getSchema env (NQuad_Predicate nq))
               (SchemaUpdate_Tokenizer (getSchema env (NQuad_Predicate nq))))) else 0) \<and>
     xids m' = xids m"
  using addTokenizerEntries_count
  by (fastforce simp: addIndexMapEntries_def Let_def split: if_splits)

lemma processEdge_count:
  assumes "processEdge env nq sid oid de m = Some m'"
  shows "\<exists>fwd rev' de'. createPostings env nq de = Some (fwd, rev', de') \<and>
           mapEdgeCount m' = mapEdgeCount m + entryLaw env nq de' \<and> xids m' = xids m"
proof -
  from assms obtain fwd rev' de' where cp: "createPostings env nq de = Some (fwd, rev', de')"
    by (auto simp: processEdge_def split: option.splits)
  let ?s = "shardFor env (NQuad_Predicate nq)"
  from assms cp obtain m1 where
    m1: "addMapEntry env (DataKey env (NQuad_Predicate nq) sid) fwd ?s m = Some m1"
    by (auto simp: processEdge_def Let_def split: option.splits)
  from assms cp m1 obtain m2 where
    m2: "(case rev' of None \<Rightarrow> Some m1
          | Some rp \<Rightarrow> addMapEntry env (ReverseKey env (NQuad_Predicate nq) oid) rp ?s m1) = Some m2"
    by (auto simp: processEdge_def Let_def split: option.splits)
  from assms cp m1 m2 obtain m3 where
    m3: "addIndexMapEntries env nq de' m2 = Some m3"
    by (auto simp: processEdge_def Let_def split: option.splits)
  from assms cp m1 m2 m3 have m4:
    "(if ExpandEdges (opt env) then
        addMapEntry env (DataKey env ''_predicate_'' sid)
          (createPredicatePosting env (NQuad_Predicate nq)) (shardFor env ''_predicate_'') m3
      else Some m3) = Some m'"
    by (auto simp: processEdge_def Let_def split: if_splits)
  have r: "(rev' \<noteq> None) =
      (SchemaUpdate_Directive (getSchema env (NQuad_Predicate nq)) = SchemaUpdate_REVERSE \<and>
       NQuad_ObjectValue nq = None)"
    using cp by (cases rule: createPostings_cases) simp_all
  have c1: "mapEdgeCount m1 = mapEdgeCount m + 1" "xids m1 = xids m"
    using addMapEntry_count [OF m1] by simp_all
  have c2: "mapEdgeCount m2 = mapEdgeCount m1 + (if rev' \<noteq> None then 1 else 0)" "xids m2 = xids m1"
    using m2 addMapEntry_count by (fastforce split: option.splits)+
  note c3 = addIndexMapEntries_count [OF m3]
  have c4: "mapEdgeCount m' = mapEdgeCount m3 + (if ExpandEdges (opt env) then 1 else 0)"
    "xids m' = xids m3"
    using m4 addMapEntry_count by (fastforce split: if_splits)+
  from c1 c2 c3 c4 r have "mapEdgeCount m' = mapEdgeCount m + entryLaw env nq de'" "xids m' = xids m"
    by (simp_all add: entryLaw_def Let_def)
  with cp show ?thesis by blast
qed

lemma processNQuad_count:
  assumes "\<not> StoreXids (opt env)" and "processNQuad env k nq m = Ok m'"
  shows "\<exists>de xs fwd rev' de'.
           resolveEdge env (xids m) nq = (Some de, xs) \<and>
           createPostings env nq de = Some (fwd, rev', de') \<and>
           mapEdgeCount m' = mapEdgeCount m + entryLaw env nq de' \<and> xids m' = xs"
proof (cases k)
  case 0
  with assms show ?thesis by simp
next
  case (Suc j)
  show ?thesis
  proof (cases j)
    case 0
    with Suc assms show ?thesis by simp
  next
    case (Suc i)
    have lk: "lookupUid env (Suc i) xid m0 =
        (case AssignUid env (xids m0) xid of (uid, isNew, xs) \<Rightarrow> Ok (uid, m0\<lparr>xids := xs\<rparr>))"
      for xid m0
      using assms(1) by (simp add: Let_def split: prod.splits)
    obtain sid sn xs1 where a1: "AssignUid env (xids m) (NQuad_Subject nq) = (sid, sn, xs1)"
      by (cases "AssignUid env (xids m) (NQuad_Subject nq)") auto
    show ?thesis
    proof (cases "NQuad_ObjectValue nq = None")
      case True
      obtain oid on xs2 where a2: "AssignUid env xs1 (NQuad_ObjectId nq) = (oid, on, xs2)"
        by (cases "AssignUid env xs1 (NQuad_ObjectId nq)") auto
      from assms(2) have pe: "processEdge env nq sid oid (CreateUidEdge env nq sid oid)
          (m\<lparr>xids := xs2\<rparr>) = Some m'"
        unfolding \<open>k = Suc j\<close> \<open>j = Suc i\<close>
        by (simp only: processNQuad.simps lk a1 a2 True)
           (simp add: a2 of_option_def split: option.splits)
      have re: "resolveEdge env (xids m) nq = (Some (CreateUidEdge env nq sid oid), xs2)"
        by (simp add: resolveEdge_def a1 a2 True)
      from processEdge_count [OF pe] re show ?thesis by auto
    next
      case False
      from assms(2) obtain de where
        ce: "CreateValueEdge env nq sid = Some de" and
        pe: "processEdge env nq sid 0 de (m\<lparr>xids := xs1\<rparr>) = Some m'"
        unfolding \<open>k = Suc j\<close> \<open>j = Suc i\<close>
        by (simp only: processNQuad.simps lk a1 False)
           (auto simp: of_option_def split: option.splits)
      have re: "resolveEdge env (xids m) nq = (Some de, xs1)"
        by (simp add: resolveEdge_def a1 ce False)
      from processEdge_count [OF pe] re show ?thesis by auto
    qed
  qed
qed

subsection \<open>C1: a flushed file is sorted\<close>

text \<open>
  C1. Within one file written by \<^verbatim>\<open>writeMapEntriesToFile\<close> the entries are in ascending
  order of the composite key. Let the buffer decode to \<open>entries\<close>, none of which the codec
  alters. Then the file that is written decodes to a permutation \<open>es\<close> of \<open>entries\<close> in
  which, for any two adjacent entries, the key of the first is at most the key of the
  second in the lexicographic order of bytes, and, when the keys are equal, the
  tie-break ID of the first (the UID of its posting if it has one, its bare UID
  otherwise) is at most that of the second.
\<close>

theorem flushed_file_sorted:
  assumes "writeMapEntriesToFile env buf shardIdx m = Some m'"
    and "decodeEntries env buf [] = Some entries"
    and "list_all (lossless env) entries"
  shows "\<exists>region es.
           files m' = files m @ [(shardIdx, mapFileId m + 1, region)] \<and>
           decodeEntries env region [] = Some es \<and> mset es = mset entries \<and>
           (\<forall>i. Suc i < length es \<longrightarrow>
              key_le (MapEntry_Key (es ! i)) (MapEntry_Key (es ! Suc i)) \<and>
              (MapEntry_Key (es ! i) = MapEntry_Key (es ! Suc i) \<longrightarrow>
                 tieBreak (es ! i) \<le> tieBreak (es ! Suc i)))"
proof -
  from assms(1) obtain region where
    reg: "sortedRegion env buf = Some region" and
    fs: "files m' = files m @ [(shardIdx, mapFileId m + 1, region)]"
    by (auto simp: writeMapEntriesToFile_def Let_def split: option.splits)
  let ?es = "sort_Slice less entries"
  have region: "region = frames env ?es"
    using sortedRegion_decoded [OF assms(2) reg] by simp
  have m: "mset ?es = mset entries" by (rule mset_sort_Slice)
  have "list_all (lossless env) ?es"
    using assms(3) list_all_mset [OF m] by simp
  then have dec: "decodeEntries env region [] = Some ?es"
    using decodeEntries_frames [of env ?es "[]"] by (simp add: region)
  have "key_le (MapEntry_Key (?es ! i)) (MapEntry_Key (?es ! Suc i)) \<and>
        (MapEntry_Key (?es ! i) = MapEntry_Key (?es ! Suc i) \<longrightarrow>
           tieBreak (?es ! i) \<le> tieBreak (?es ! Suc i))"
    if "Suc i < length ?es" for i
    using sort_Slice_adjacent [OF that] by (rule not_less_ordered)
  with fs dec m show ?thesis by blast
qed

theorem flushed_file_sorted_witness:
  "writeMapEntriesToFile example_env
       [5, 2, 2, 5, 0, 9, 5, 2, 2, 5, 0, 3, 9, 3, 1, 7, 7, 1, 200, 9, 1, 65] 0 example_mapper =
     Some (example_mapper\<lparr>mapFileId := 1, files :=
       [(0, 1, [9, 3, 1, 7, 7, 1, 200, 9, 1, 65, 5, 2, 2, 5, 0, 3, 5, 2, 2, 5, 0, 9])]\<rparr>) \<and>
   decodeEntries example_env
       [5, 2, 2, 5, 0, 9, 5, 2, 2, 5, 0, 3, 9, 3, 1, 7, 7, 1, 200, 9, 1, 65] [] =
     Some [example_e1, example_e2, example_e3] \<and>
   list_all (lossless example_env) [example_e1, example_e2, example_e3] \<and>
   (\<exists>es. decodeEntries example_env
       [9, 3, 1, 7, 7, 1, 200, 9, 1, 65, 5, 2, 2, 5, 0, 3, 5, 2, 2, 5, 0, 9] [] = Some es \<and>
      mset es = mset [example_e1, example_e2, example_e3] \<and>
      (\<forall>i. Suc i < length es \<longrightarrow>
         key_le (MapEntry_Key (es ! i)) (MapEntry_Key (es ! Suc i)) \<and>
         (MapEntry_Key (es ! i) = MapEntry_Key (es ! Suc i) \<longrightarrow>
            tieBreak (es ! i) \<le> tieBreak (es ! Suc i))))"
proof -
  have w: "writeMapEntriesToFile example_env
       [5, 2, 2, 5, 0, 9, 5, 2, 2, 5, 0, 3, 9, 3, 1, 7, 7, 1, 200, 9, 1, 65] 0 example_mapper =
     Some (example_mapper\<lparr>mapFileId := 1, files :=
       [(0, 1, [9, 3, 1, 7, 7, 1, 200, 9, 1, 65, 5, 2, 2, 5, 0, 3, 5, 2, 2, 5, 0, 9])]\<rparr>)"
    by code_simp
  have d: "decodeEntries example_env
       [5, 2, 2, 5, 0, 9, 5, 2, 2, 5, 0, 3, 9, 3, 1, 7, 7, 1, 200, 9, 1, 65] [] =
     Some [example_e1, example_e2, example_e3]"
    by code_simp
  have l: "list_all (lossless example_env) [example_e1, example_e2, example_e3]"
    by (simp add: lossless_def example_env_def exMarshal_def exUnmarshal_def
        example_e1_def example_e2_def example_e3_def example_val_def valTypeOf_def postingTypeOf_def)
  from flushed_file_sorted [OF w d l] w d l show ?thesis
    by (simp add: example_mapper_def)
qed

subsection \<open>C6: sorting a buffer does not change its size\<close>

text \<open>
  C6. Take a shard whose buffer is empty and any sequence of calls of \<^verbatim>\<open>addMapEntry\<close>
  that return, with entries the codec does not alter. Then decoding the shard's buffer,
  sorting the entries and encoding them again in sorted order fills the region
  exactly: the assertion \<^verbatim>\<open>len(buf) == 0\<close> holds, \<^verbatim>\<open>writeMapEntriesToFile\<close> returns, and
  the region written has the length of the buffer.
\<close>

theorem flush_keeps_size:
  assumes "addMapEntries env calls m = Some m'"
    and "s < length (shards m)"
    and "shards m ! s = []"
    and "list_all (\<lambda>(key, p, shard). lossless env (newMapEntry key p)) calls"
  shows "\<exists>region.
           sortedRegion env (shards m' ! s) = Some region \<and>
           length region = length (shards m' ! s) \<and>
           writeMapEntriesToFile env (shards m' ! s) s m' =
             Some (m'\<lparr>mapFileId := mapFileId m' + 1,
                      files := files m' @ [(s, mapFileId m' + 1, region)]\<rparr>)"
proof -
  let ?mes = "map (\<lambda>(key, p, shard). newMapEntry key p)
                (filter (\<lambda>(key, p, shard). shard = s) calls)"
  have buf: "shards m' ! s = frames env ?mes"
    using addMapEntries_buffer [OF assms(1,2)] assms(3) by simp
  have all: "list_all (lossless env) ?mes"
    using assms(4) by (auto simp: list_all_iff)
  have reg: "sortedRegion env (shards m' ! s) = Some (frames env (sort_Slice less ?mes))"
    unfolding buf by (rule sortedRegion_frames [OF all])
  have "length (frames env (sort_Slice less ?mes)) = length (frames env ?mes)"
    by (rule length_frames_mset) (rule mset_sort_Slice)
  with reg buf show ?thesis
    by (simp add: writeMapEntriesToFile_def Let_def)
qed

theorem flush_keeps_size_witness:
  "addMapEntries example_env
       [([2, 5], example_ref 9, 0), ([2, 5], example_ref 3, 0), ([1, 7, 7], example_val, 0)]
       example_mapper =
     Some (example_mapper\<lparr>mapEdgeCount := 3, shards :=
       [[5, 2, 2, 5, 0, 9, 5, 2, 2, 5, 0, 3, 9, 3, 1, 7, 7, 1, 200, 9, 1, 65]]\<rparr>) \<and>
   (0::nat) < length (shards example_mapper) \<and> shards example_mapper ! 0 = [] \<and>
   list_all (\<lambda>(key, p, shard). lossless example_env (newMapEntry key p))
       [([2, 5], example_ref 9, 0), ([2, 5], example_ref 3, 0), ([1, 7, 7], example_val, 0)] \<and>
   (\<exists>region.
      sortedRegion example_env
          [5, 2, 2, 5, 0, 9, 5, 2, 2, 5, 0, 3, 9, 3, 1, 7, 7, 1, 200, 9, 1, 65] = Some region \<and>
      length region = 22)"
proof -
  have a: "addMapEntries example_env
       [([2, 5], example_ref 9, 0), ([2, 5], example_ref 3, 0), ([1, 7, 7], example_val, 0)]
       example_mapper =
     Some (example_mapper\<lparr>mapEdgeCount := 3, shards :=
       [[5, 2, 2, 5, 0, 9, 5, 2, 2, 5, 0, 3, 9, 3, 1, 7, 7, 1, 200, 9, 1, 65]]\<rparr>)"
    by code_simp
  have s: "(0::nat) < length (shards example_mapper)" "shards example_mapper ! 0 = []"
    by (simp_all add: example_mapper_def)
  have l: "list_all (\<lambda>(key, p, shard). lossless example_env (newMapEntry key p))
       [([2, 5], example_ref 9, 0), ([2, 5], example_ref 3, 0), ([1, 7, 7], example_val, 0)]"
    by (simp add: lossless_def newMapEntry_def example_ref_def example_val_def example_env_def
        exMarshal_def exUnmarshal_def valTypeOf_def postingTypeOf_def)
  from flush_keeps_size [OF a s l] a s l show ?thesis
    by (auto simp: example_mapper_def)
qed

subsection \<open>C4: an entry has one payload\<close>

text \<open>
  C4. Every call of \<^verbatim>\<open>addMapEntry\<close> that returns has counted one entry and appended
  one entry to the shard's buffer, with the key given and exactly one payload: the
  posting (and the UID left 0) when the posting's type is not REF or it has facets, and
  otherwise the posting's UID as the bare UID (and no posting). Never both.
\<close>

theorem addMapEntry_one_payload:
  assumes "addMapEntry env key p shard m = Some m'"
  shows "\<exists>me. shards m' ! shard = shards m ! shard @ entryBytes env me \<and>
           mapEdgeCount m' = mapEdgeCount m + 1 \<and>
           me = newMapEntry key p \<and> MapEntry_Key me = key \<and>
           (if Posting_PostingType p \<noteq> Posting_REF \<or> Posting_Facets p \<noteq> []
            then MapEntry_Posting me = Some p \<and> MapEntry_Uid me = 0
            else MapEntry_Posting me = None \<and> MapEntry_Uid me = Posting_Uid p)"
proof -
  from addMapEntry_shards [OF assms] have
    "shards m' ! shard = shards m ! shard @ entryBytes env (newMapEntry key p)"
    by simp
  moreover have "mapEdgeCount m' = mapEdgeCount m + 1"
    using assms by (auto simp: addMapEntry_def Let_def split: if_splits option.splits)
  ultimately show ?thesis
    by (auto simp: newMapEntry_def Let_def)
qed

theorem addMapEntry_one_payload_witness:
  "addMapEntry example_env [2, 5] (example_ref 9) 0 example_mapper =
     Some (example_mapper\<lparr>mapEdgeCount := 1, shards := [[5, 2, 2, 5, 0, 9]]\<rparr>) \<and>
   addMapEntry example_env [1, 7, 7] example_val 0 example_mapper =
     Some (example_mapper\<lparr>mapEdgeCount := 1, shards := [[9, 3, 1, 7, 7, 1, 200, 9, 1, 65]]\<rparr>) \<and>
   (\<exists>me. [5, 2, 2, 5, 0, 9] = entryBytes example_env me \<and>
      MapEntry_Key me = [2, 5] \<and> MapEntry_Posting me = None \<and> MapEntry_Uid me = 9) \<and>
   (\<exists>me. [9, 3, 1, 7, 7, 1, 200, 9, 1, 65] = entryBytes example_env me \<and>
      MapEntry_Key me = [1, 7, 7] \<and> MapEntry_Posting me = Some example_val \<and> MapEntry_Uid me = 0)"
proof -
  have a: "addMapEntry example_env [2, 5] (example_ref 9) 0 example_mapper =
     Some (example_mapper\<lparr>mapEdgeCount := 1, shards := [[5, 2, 2, 5, 0, 9]]\<rparr>)"
    by code_simp
  have b: "addMapEntry example_env [1, 7, 7] example_val 0 example_mapper =
     Some (example_mapper\<lparr>mapEdgeCount := 1, shards := [[9, 3, 1, 7, 7, 1, 200, 9, 1, 65]]\<rparr>)"
    by code_simp
  from addMapEntry_one_payload [OF a] obtain me1 where
    "shards (example_mapper\<lparr>mapEdgeCount := 1, shards := [[5, 2, 2, 5, 0, 9]]\<rparr>) ! 0 =
       shards example_mapper ! 0 @ entryBytes example_env me1"
    "MapEntry_Key me1 = [2, 5]"
    "if Posting_PostingType (example_ref 9) \<noteq> Posting_REF \<or> Posting_Facets (example_ref 9) \<noteq> []
     then MapEntry_Posting me1 = Some (example_ref 9) \<and> MapEntry_Uid me1 = 0
     else MapEntry_Posting me1 = None \<and> MapEntry_Uid me1 = Posting_Uid (example_ref 9)"
    by blast
  then have 1: "[5, 2, 2, 5, 0, 9] = entryBytes example_env me1 \<and>
      MapEntry_Key me1 = [2, 5] \<and> MapEntry_Posting me1 = None \<and> MapEntry_Uid me1 = 9"
    by (simp add: example_mapper_def example_ref_def)
  from addMapEntry_one_payload [OF b] obtain me2 where
    "shards (example_mapper\<lparr>mapEdgeCount := 1,
        shards := [[9, 3, 1, 7, 7, 1, 200, 9, 1, 65]]\<rparr>) ! 0 =
       shards example_mapper ! 0 @ entryBytes example_env me2"
    "MapEntry_Key me2 = [1, 7, 7]"
    "if Posting_PostingType example_val \<noteq> Posting_REF \<or> Posting_Facets example_val \<noteq> []
     then MapEntry_Posting me2 = Some example_val \<and> MapEntry_Uid me2 = 0
     else MapEntry_Posting me2 = None \<and> MapEntry_Uid me2 = Posting_Uid example_val"
    by blast
  then have 2: "[9, 3, 1, 7, 7, 1, 200, 9, 1, 65] = entryBytes example_env me2 \<and>
      MapEntry_Key me2 = [1, 7, 7] \<and> MapEntry_Posting me2 = Some example_val \<and>
      MapEntry_Uid me2 = 0"
    by (simp add: example_mapper_def example_val_def)
  from a b 1 2 show ?thesis by blast
qed


subsection \<open>C10: the edge after \<^verbatim>\<open>createPostings\<close>\<close>




subsection \<open>C2: the disambiguator of a value posting\<close>

text \<open>
  C2, as amended. For two value statements of one predicate for which
  \<^verbatim>\<open>createPostings\<close> returns, the UID of each forward posting is, in this order: the hash
  of the language tag if the edge has one; else the hash of the value bytes if the
  schema of the predicate is a list; else the sentinel \<open>2 ^ 64 - 1\<close>. So two values
  without a language tag get the same sentinel under a schema that is not a list, and
  under a list schema each gets the hash of its own value bytes, and the two
  disambiguators are distinct exactly when the two hashes are. The language tag and the
  value bytes are those of the edge where lines 266 and 269 read them, after
  \<^verbatim>\<open>validateType\<close>.
\<close>

theorem value_disambiguator:
  assumes "createPostings env nq1 de1 = Some (fwd1, r1, d1)"
    and "createPostings env nq2 de2 = Some (fwd2, r2, d2)"
    and "NQuad_ObjectValue nq1 \<noteq> None" and "NQuad_ObjectValue nq2 \<noteq> None"
    and "NQuad_Predicate nq1 = NQuad_Predicate nq2"
  shows "validateType env de1 False = Some d1 \<and> validateType env de2 False = Some d2 \<and>
         Posting_Uid fwd1 =
           (if DirectedEdge_Lang d1 \<noteq> [] then Fingerprint64 env (bytes_of (DirectedEdge_Lang d1))
            else if SchemaUpdate_List (getSchema env (NQuad_Predicate nq1))
            then Fingerprint64 env (DirectedEdge_Value d1)
            else MaxUint64) \<and>
         Posting_Uid fwd2 =
           (if DirectedEdge_Lang d2 \<noteq> [] then Fingerprint64 env (bytes_of (DirectedEdge_Lang d2))
            else if SchemaUpdate_List (getSchema env (NQuad_Predicate nq2))
            then Fingerprint64 env (DirectedEdge_Value d2)
            else MaxUint64) \<and>
         unat MaxUint64 = 2 ^ 64 - 1 \<and>
         (DirectedEdge_Lang d1 = [] \<and> DirectedEdge_Lang d2 = [] \<and>
          \<not> SchemaUpdate_List (getSchema env (NQuad_Predicate nq1)) \<longrightarrow>
            Posting_Uid fwd1 = MaxUint64 \<and> Posting_Uid fwd2 = MaxUint64) \<and>
         (DirectedEdge_Lang d1 = [] \<and> DirectedEdge_Lang d2 = [] \<and>
          SchemaUpdate_List (getSchema env (NQuad_Predicate nq1)) \<longrightarrow>
            Posting_Uid fwd1 = Fingerprint64 env (DirectedEdge_Value d1) \<and>
            Posting_Uid fwd2 = Fingerprint64 env (DirectedEdge_Value d2) \<and>
            ((Posting_Uid fwd1 \<noteq> Posting_Uid fwd2) =
             (Fingerprint64 env (DirectedEdge_Value d1) \<noteq>
              Fingerprint64 env (DirectedEdge_Value d2))))"
proof -
  have one: "validateType env de False = Some d \<and> Posting_Uid fwd = disambiguator env nq d"
    if "createPostings env nq de = Some (fwd, r, d)" "NQuad_ObjectValue nq \<noteq> None"
    for nq de fwd r d
    using that(1)
  proof (cases rule: createPostings_cases)
    case (forward d' p)
    from that(2) have "(NQuad_ObjectValue nq = None) = False" by simp
    with forward that(2) show ?thesis by simp
  next
    case (reverse d' p d2 rp)
    with that(2) show ?thesis by simp
  qed
  from one [OF assms(1,3)] one [OF assms(2,4)] assms(5) show ?thesis
    by (simp add: disambiguator_def MaxUint64_unat)
qed

theorem value_disambiguator_witness:
  "(\<exists>fwd1 fwd2.
      createPostings example_env (example_age [1]) (example_age_edge [1]) =
        Some (fwd1, None, example_age_edge [1]) \<and>
      createPostings example_env (example_age [2]) (example_age_edge [2]) =
        Some (fwd2, None, example_age_edge [2]) \<and>
      \<not> SchemaUpdate_List (getSchema example_env ''age'') \<and>
      Posting_Uid fwd1 = MaxUint64 \<and> Posting_Uid fwd2 = MaxUint64) \<and>
   (\<exists>fwd1 fwd2.
      createPostings example_env (example_nick [1]) (example_nick_edge [1]) =
        Some (fwd1, None, example_nick_edge [1]) \<and>
      createPostings example_env (example_nick [2, 3]) (example_nick_edge [2, 3]) =
        Some (fwd2, None, example_nick_edge [2, 3]) \<and>
      SchemaUpdate_List (getSchema example_env ''nick'') \<and>
      Posting_Uid fwd1 = Fingerprint64 example_env [1] \<and>
      Posting_Uid fwd2 = Fingerprint64 example_env [2, 3] \<and>
      Posting_Uid fwd1 \<noteq> Posting_Uid fwd2)"
proof -
  have a: "\<exists>fwd. createPostings example_env (example_age v) (example_age_edge v) =
        Some (fwd, None, example_age_edge v)" for v
    by (simp add: createPostings_def example_env_def exSchema_def example_age_def
        example_age_edge_def exNewPosting_def Let_def)
  have n: "\<exists>fwd. createPostings example_env (example_nick v) (example_nick_edge v) =
        Some (fwd, None, example_nick_edge v)" for v
    by (simp add: createPostings_def example_env_def exSchema_def example_nick_def
        example_nick_edge_def exNewPosting_def Let_def)
  from a [of "[1]"] a [of "[2]"] obtain f1 f2 where
    c1: "createPostings example_env (example_age [1]) (example_age_edge [1]) =
        Some (f1, None, example_age_edge [1])" and
    c2: "createPostings example_env (example_age [2]) (example_age_edge [2]) =
        Some (f2, None, example_age_edge [2])"
    by blast
  have sa: "\<not> SchemaUpdate_List (getSchema example_env ''age'')"
    by (simp add: example_env_def exSchema_def)
  have "Posting_Uid f1 = MaxUint64 \<and> Posting_Uid f2 = MaxUint64"
    using value_disambiguator [OF c1 c2] sa
    by (simp add: example_age_def example_age_edge_def)
  with c1 c2 sa have A: "\<exists>fwd1 fwd2.
      createPostings example_env (example_age [1]) (example_age_edge [1]) =
        Some (fwd1, None, example_age_edge [1]) \<and>
      createPostings example_env (example_age [2]) (example_age_edge [2]) =
        Some (fwd2, None, example_age_edge [2]) \<and>
      \<not> SchemaUpdate_List (getSchema example_env ''age'') \<and>
      Posting_Uid fwd1 = MaxUint64 \<and> Posting_Uid fwd2 = MaxUint64"
    by blast
  from n [of "[1]"] n [of "[2, 3]"] obtain g1 g2 where
    e1: "createPostings example_env (example_nick [1]) (example_nick_edge [1]) =
        Some (g1, None, example_nick_edge [1])" and
    e2: "createPostings example_env (example_nick [2, 3]) (example_nick_edge [2, 3]) =
        Some (g2, None, example_nick_edge [2, 3])"
    by blast
  have sn: "SchemaUpdate_List (getSchema example_env ''nick'')"
    by (simp add: example_env_def exSchema_def)
  have fp: "Fingerprint64 example_env [1] \<noteq> Fingerprint64 example_env [2, 3]"
    by (simp add: example_env_def)
  have "Posting_Uid g1 = Fingerprint64 example_env [1] \<and>
        Posting_Uid g2 = Fingerprint64 example_env [2, 3]"
    using value_disambiguator [OF e1 e2] sn
    by (simp add: example_nick_def example_nick_edge_def)
  with e1 e2 sn fp have B: "\<exists>fwd1 fwd2.
      createPostings example_env (example_nick [1]) (example_nick_edge [1]) =
        Some (fwd1, None, example_nick_edge [1]) \<and>
      createPostings example_env (example_nick [2, 3]) (example_nick_edge [2, 3]) =
        Some (fwd2, None, example_nick_edge [2, 3]) \<and>
      SchemaUpdate_List (getSchema example_env ''nick'') \<and>
      Posting_Uid fwd1 = Fingerprint64 example_env [1] \<and>
      Posting_Uid fwd2 = Fingerprint64 example_env [2, 3] \<and>
      Posting_Uid fwd1 \<noteq> Posting_Uid fwd2"
    by auto
  from A B show ?thesis by blast
qed

text \<open>
  C2 as stated fails: two distinct values under a list schema can get the same
  disambiguator. The strings \<^verbatim>\<open>he86s8M\<close> and \<^verbatim>\<open>hlz\<close>, U+020A, \<^verbatim>\<open>Ms\<close> are seven bytes each in
  UTF-8, and \<^verbatim>\<open>farm.Fingerprint64\<close> gives \<^verbatim>\<open>0x22bf83cf7176b584\<close> for both. So the two
  statements of the list predicate \<open>nick\<close> with these values, neither with a language
  tag, get forward postings with the same disambiguator.
\<close>

theorem distinct_values_same_disambiguator:
  "createPostings example_env_farm
       (example_nick [104, 101, 56, 54, 115, 56, 77])
       (example_nick_edge [104, 101, 56, 54, 115, 56, 77]) =
     Some (\<lparr>Posting_Uid = 0x22bf83cf7176b584,
            Posting_Value = [104, 101, 56, 54, 115, 56, 77],
            Posting_ValType = Posting_BINARY, Posting_PostingType = Posting_VALUE,
            Posting_Facets = []\<rparr>,
           None, example_nick_edge [104, 101, 56, 54, 115, 56, 77]) \<and>
   createPostings example_env_farm
       (example_nick [104, 108, 122, 200, 138, 77, 115])
       (example_nick_edge [104, 108, 122, 200, 138, 77, 115]) =
     Some (\<lparr>Posting_Uid = 0x22bf83cf7176b584,
            Posting_Value = [104, 108, 122, 200, 138, 77, 115],
            Posting_ValType = Posting_BINARY, Posting_PostingType = Posting_VALUE,
            Posting_Facets = []\<rparr>,
           None, example_nick_edge [104, 108, 122, 200, 138, 77, 115]) \<and>
   SchemaUpdate_List (getSchema example_env_farm ''nick'') \<and>
   DirectedEdge_Lang (example_nick_edge [104, 101, 56, 54, 115, 56, 77]) = [] \<and>
   DirectedEdge_Lang (example_nick_edge [104, 108, 122, 200, 138, 77, 115]) = [] \<and>
   DirectedEdge_Value (example_nick_edge [104, 101, 56, 54, 115, 56, 77]) \<noteq>
     DirectedEdge_Value (example_nick_edge [104, 108, 122, 200, 138, 77, 115]) \<and>
   Fingerprint64 example_env_farm [104, 101, 56, 54, 115, 56, 77] =
     Fingerprint64 example_env_farm [104, 108, 122, 200, 138, 77, 115]"
proof -
  have h: "hashLen0to16 [104, 101, 56, 54, 115, 56, 77] = 0x22bf83cf7176b584"
    "hashLen0to16 [104, 108, 122, 200, 138, 77, 115] = 0x22bf83cf7176b584"
    by (simp_all add: hashLen0to16_def hashLen16Mul_def fetch32_def farm_k2_def Let_def)
  have c: "createPostings example_env_farm (example_nick v) (example_nick_edge v) =
      Some (\<lparr>Posting_Uid = hashLen0to16 v, Posting_Value = v,
             Posting_ValType = Posting_BINARY, Posting_PostingType = Posting_VALUE,
             Posting_Facets = []\<rparr>, None, example_nick_edge v)" for v
    by (simp add: createPostings_def example_env_farm_def example_env_def exSchema_def
        example_nick_def example_nick_edge_def exNewPosting_def Let_def)
  have l: "SchemaUpdate_List (getSchema example_env_farm ''nick'')"
    "Fingerprint64 example_env_farm = hashLen0to16"
    by (simp_all add: example_env_farm_def example_env_def exSchema_def)
  from h l show ?thesis by (simp add: c) (simp add: example_nick_edge_def)
qed

subsection \<open>C3: the reverse posting\<close>

text \<open>
  C3. When \<^verbatim>\<open>createPostings\<close> returns, it returns a reverse posting exactly if the schema
  of the predicate has the reverse directive. The reverse posting is then built by
  \<^verbatim>\<open>NewPosting\<close> from the validated edge with source and destination exchanged, and the
  object of the statement is a node. \<^verbatim>\<open>processNQuad\<close>, on a statement whose object is a
  node, resolves the subject and the object with \<^verbatim>\<open>lookupUid\<close> and then makes the calls
  of \<^verbatim>\<open>addMapEntry\<close> of \<open>nodeEntries\<close> and no other: the forward entry under \<^verbatim>\<open>DataKey\<close>
  of the predicate and the subject, followed, exactly if there is a reverse posting, by
  the reverse entry under \<^verbatim>\<open>ReverseKey\<close> of the predicate and the UID that \<^verbatim>\<open>lookupUid\<close>
  gave for the object. A statement with a literal object whose predicate has the
  reverse directive is fatal: \<^verbatim>\<open>createPostings\<close> does not return, whatever the edge, and
  neither does \<^verbatim>\<open>processNQuad\<close>, which ends the process whenever its recursion ends (as
  it does when \<^verbatim>\<open>AssignUid\<close> is idempotent).
\<close>

theorem reverse_posting:
  "(createPostings env nq de = Some (fwd, rev', de') \<longrightarrow>
      ((rev' \<noteq> None) =
       (SchemaUpdate_Directive (getSchema env (NQuad_Predicate nq)) = SchemaUpdate_REVERSE)) \<and>
      (\<forall>rp. rev' = Some rp \<longrightarrow>
         NQuad_ObjectValue nq = None \<and>
         (\<exists>d d2. validateType env de True = Some d \<and>
            validateType env
              (d\<lparr>DirectedEdge_Entity := DirectedEdge_ValueId d,
                 DirectedEdge_ValueId := DirectedEdge_Entity d\<rparr>) True = Some d2 \<and>
            NewPosting env d2 = Some rp) \<and>
         (\<forall>sid oid m m'. processEdge env nq sid oid de m = Some m' \<longrightarrow>
            (\<exists>post.
               shards m' ! shardFor env (NQuad_Predicate nq) =
                 shards m ! shardFor env (NQuad_Predicate nq) @
                 entryBytes env (newMapEntry (DataKey env (NQuad_Predicate nq) sid) fwd) @
                 entryBytes env (newMapEntry (ReverseKey env (NQuad_Predicate nq) oid) rp) @
                 post)))) \<and>
   (\<forall>k m sid m1 oid m2 f r d.
      NQuad_ObjectValue nq = None \<and>
      lookupUid env k (NQuad_Subject nq) m = Ok (sid, m1) \<and>
      lookupUid env k (NQuad_ObjectId nq) m1 = Ok (oid, m2) \<and>
      createPostings env nq (CreateUidEdge env nq sid oid) = Some (f, r, d) \<longrightarrow>
        ((r \<noteq> None) =
         (SchemaUpdate_Directive (getSchema env (NQuad_Predicate nq)) = SchemaUpdate_REVERSE)) \<and>
        processNQuad env (Suc k) nq m =
          of_option (addMapEntries env (nodeEntries env nq sid oid f r) m2) \<and>
        (\<forall>rp m'. r = Some rp \<and> processNQuad env (Suc k) nq m = Ok m' \<longrightarrow>
           (\<exists>post.
              shards m' ! shardFor env (NQuad_Predicate nq) =
                shards m2 ! shardFor env (NQuad_Predicate nq) @
                entryBytes env (newMapEntry (DataKey env (NQuad_Predicate nq) sid) f) @
                entryBytes env (newMapEntry (ReverseKey env (NQuad_Predicate nq) oid) rp) @
                post))) \<and>
   (SchemaUpdate_Directive (getSchema env (NQuad_Predicate nq)) = SchemaUpdate_REVERSE \<and>
    NQuad_ObjectValue nq \<noteq> None \<longrightarrow>
      createPostings env nq de = None \<and>
      (\<forall>sid oid m. processEdge env nq sid oid de m = None) \<and>
      (\<forall>k m m'. processNQuad env k nq m \<noteq> Ok m') \<and>
      (idempotent env \<longrightarrow> (\<forall>k m. 4 \<le> k \<longrightarrow> processNQuad env k nq m = Fatal)))"
proof (intro conjI impI)
  assume cp: "createPostings env nq de = Some (fwd, rev', de')"
  then show "(rev' \<noteq> None) =
       (SchemaUpdate_Directive (getSchema env (NQuad_Predicate nq)) = SchemaUpdate_REVERSE)"
    by (cases rule: createPostings_cases) simp_all
  show "\<forall>rp. rev' = Some rp \<longrightarrow>
         NQuad_ObjectValue nq = None \<and>
         (\<exists>d d2. validateType env de True = Some d \<and>
            validateType env
              (d\<lparr>DirectedEdge_Entity := DirectedEdge_ValueId d,
                 DirectedEdge_ValueId := DirectedEdge_Entity d\<rparr>) True = Some d2 \<and>
            NewPosting env d2 = Some rp) \<and>
         (\<forall>sid oid m m'. processEdge env nq sid oid de m = Some m' \<longrightarrow>
            (\<exists>post.
               shards m' ! shardFor env (NQuad_Predicate nq) =
                 shards m ! shardFor env (NQuad_Predicate nq) @
                 entryBytes env (newMapEntry (DataKey env (NQuad_Predicate nq) sid) fwd) @
                 entryBytes env (newMapEntry (ReverseKey env (NQuad_Predicate nq) oid) rp) @
                 post))"
  proof (intro allI impI)
    fix rp
    assume r: "rev' = Some rp"
    from cp r have "NQuad_ObjectValue nq = None \<and>
         (\<exists>d d2. validateType env de True = Some d \<and>
            validateType env (swapEnds d) True = Some d2 \<and> NewPosting env d2 = Some rp)"
      by (cases rule: createPostings_cases) auto
    moreover have "\<forall>sid oid m m'. processEdge env nq sid oid de m = Some m' \<longrightarrow>
            (\<exists>post.
               shards m' ! shardFor env (NQuad_Predicate nq) =
                 shards m ! shardFor env (NQuad_Predicate nq) @
                 entryBytes env (newMapEntry (DataKey env (NQuad_Predicate nq) sid) fwd) @
                 entryBytes env (newMapEntry (ReverseKey env (NQuad_Predicate nq) oid) rp) @
                 post)"
      using processEdge_reverse cp r by blast
    ultimately show "NQuad_ObjectValue nq = None \<and>
         (\<exists>d d2. validateType env de True = Some d \<and>
            validateType env
              (d\<lparr>DirectedEdge_Entity := DirectedEdge_ValueId d,
                 DirectedEdge_ValueId := DirectedEdge_Entity d\<rparr>) True = Some d2 \<and>
            NewPosting env d2 = Some rp) \<and>
         (\<forall>sid oid m m'. processEdge env nq sid oid de m = Some m' \<longrightarrow>
            (\<exists>post.
               shards m' ! shardFor env (NQuad_Predicate nq) =
                 shards m ! shardFor env (NQuad_Predicate nq) @
                 entryBytes env (newMapEntry (DataKey env (NQuad_Predicate nq) sid) fwd) @
                 entryBytes env (newMapEntry (ReverseKey env (NQuad_Predicate nq) oid) rp) @
                 post))"
      by (simp add: swapEnds_def)
  qed
next
  show "\<forall>k m sid m1 oid m2 f r d.
      NQuad_ObjectValue nq = None \<and>
      lookupUid env k (NQuad_Subject nq) m = Ok (sid, m1) \<and>
      lookupUid env k (NQuad_ObjectId nq) m1 = Ok (oid, m2) \<and>
      createPostings env nq (CreateUidEdge env nq sid oid) = Some (f, r, d) \<longrightarrow>
        ((r \<noteq> None) =
         (SchemaUpdate_Directive (getSchema env (NQuad_Predicate nq)) = SchemaUpdate_REVERSE)) \<and>
        processNQuad env (Suc k) nq m =
          of_option (addMapEntries env (nodeEntries env nq sid oid f r) m2) \<and>
        (\<forall>rp m'. r = Some rp \<and> processNQuad env (Suc k) nq m = Ok m' \<longrightarrow>
           (\<exists>post.
              shards m' ! shardFor env (NQuad_Predicate nq) =
                shards m2 ! shardFor env (NQuad_Predicate nq) @
                entryBytes env (newMapEntry (DataKey env (NQuad_Predicate nq) sid) f) @
                entryBytes env (newMapEntry (ReverseKey env (NQuad_Predicate nq) oid) rp) @
                post))"
  proof (intro allI impI)
    fix k :: nat and m m1 m2 :: "'a mapper" and sid oid f r d
    assume "NQuad_ObjectValue nq = None \<and>
      lookupUid env k (NQuad_Subject nq) m = Ok (sid, m1) \<and>
      lookupUid env k (NQuad_ObjectId nq) m1 = Ok (oid, m2) \<and>
      createPostings env nq (CreateUidEdge env nq sid oid) = Some (f, r, d)"
    then have ov: "NQuad_ObjectValue nq = None"
      and l1: "lookupUid env k (NQuad_Subject nq) m = Ok (sid, m1)"
      and l2: "lookupUid env k (NQuad_ObjectId nq) m1 = Ok (oid, m2)"
      and cp: "createPostings env nq (CreateUidEdge env nq sid oid) = Some (f, r, d)"
      by simp_all
    from cp have A: "(r \<noteq> None) =
         (SchemaUpdate_Directive (getSchema env (NQuad_Predicate nq)) = SchemaUpdate_REVERSE)"
      by (cases rule: createPostings_cases) simp_all
    have pn: "processNQuad env (Suc k) nq m =
        of_option (processEdge env nq sid oid (CreateUidEdge env nq sid oid) m2)"
      by (rule processNQuad_node [OF ov l1 l2])
    have B: "processNQuad env (Suc k) nq m =
          of_option (addMapEntries env (nodeEntries env nq sid oid f r) m2)"
      unfolding pn processEdge_node [OF ov cp] ..
    have C: "\<exists>post.
              shards m' ! shardFor env (NQuad_Predicate nq) =
                shards m2 ! shardFor env (NQuad_Predicate nq) @
                entryBytes env (newMapEntry (DataKey env (NQuad_Predicate nq) sid) f) @
                entryBytes env (newMapEntry (ReverseKey env (NQuad_Predicate nq) oid) rp) @
                post"
      if "r = Some rp \<and> processNQuad env (Suc k) nq m = Ok m'" for rp m'
    proof -
      from that have r: "r = Some rp" and ok: "processNQuad env (Suc k) nq m = Ok m'"
        by simp_all
      from ok pn have pe:
        "processEdge env nq sid oid (CreateUidEdge env nq sid oid) m2 = Some m'"
        by (auto simp: of_option_def split: option.splits)
      from cp r have cp': "createPostings env nq (CreateUidEdge env nq sid oid) = Some (f, Some rp, d)"
        by simp
      show ?thesis by (rule processEdge_reverse [OF pe cp'])
    qed
    show "((r \<noteq> None) =
         (SchemaUpdate_Directive (getSchema env (NQuad_Predicate nq)) = SchemaUpdate_REVERSE)) \<and>
        processNQuad env (Suc k) nq m =
          of_option (addMapEntries env (nodeEntries env nq sid oid f r) m2) \<and>
        (\<forall>rp m'. r = Some rp \<and> processNQuad env (Suc k) nq m = Ok m' \<longrightarrow>
           (\<exists>post.
              shards m' ! shardFor env (NQuad_Predicate nq) =
                shards m2 ! shardFor env (NQuad_Predicate nq) @
                entryBytes env (newMapEntry (DataKey env (NQuad_Predicate nq) sid) f) @
                entryBytes env (newMapEntry (ReverseKey env (NQuad_Predicate nq) oid) rp) @
                post))"
      using A B C by (intro conjI allI impI)
  qed
next
  assume a: "SchemaUpdate_Directive (getSchema env (NQuad_Predicate nq)) = SchemaUpdate_REVERSE \<and>
    NQuad_ObjectValue nq \<noteq> None"
  then have r: "SchemaUpdate_Directive (getSchema env (NQuad_Predicate nq)) = SchemaUpdate_REVERSE"
    and v: "NQuad_ObjectValue nq \<noteq> None" by simp_all
  show "createPostings env nq de = None"
    by (rule createPostings_reverse_literal [OF r v])
  then show "\<forall>sid oid m. processEdge env nq sid oid de m = None"
    by (simp add: processEdge_def)
  show no: "\<forall>k m m'. processNQuad env k nq m \<noteq> Ok m'"
    using processNQuad_reverse_literal [OF r v] by blast
  show "\<forall>k m. 4 \<le> k \<longrightarrow> processNQuad env k nq m = Fatal" if idem: "idempotent env"
  proof (intro impI allI)
    fix k :: nat and m
    assume "4 \<le> k"
    then obtain j where "k = 4 + j" by (auto simp: le_iff_add)
    then have k: "k = Suc (Suc (Suc (Suc j)))" by simp
    from processNQuad_fuel [OF idem, of j nq m] have "processNQuad env k nq m \<noteq> OutOfFuel"
      unfolding k by blast
    with no show "processNQuad env k nq m = Fatal"
      by (cases "processNQuad env k nq m") auto
  qed
qed

theorem reverse_posting_witness:
  "lookupUid example_env 1 ''alice'' example_mapper =
     Ok (1, example_mapper\<lparr>xids := [(''alice'', 1)]\<rparr>) \<and>
   lookupUid example_env 1 ''bob'' (example_mapper\<lparr>xids := [(''alice'', 1)]\<rparr>) =
     Ok (2, example_mapper\<lparr>xids := [(''alice'', 1), (''bob'', 2)]\<rparr>) \<and>
   createPostings example_env example_knows (exCreateUidEdge example_knows 1 2) =
     Some (example_ref 2\<lparr>Posting_ValType := Posting_UID\<rparr>,
           Some (example_ref 1\<lparr>Posting_ValType := Posting_UID\<rparr>),
           exCreateUidEdge example_knows 1 2) \<and>
   SchemaUpdate_Directive (getSchema example_env (NQuad_Predicate example_knows)) =
     SchemaUpdate_REVERSE \<and>
   NQuad_ObjectValue example_knows = None \<and>
   processNQuad example_env 2 example_knows example_mapper =
     Ok (example_mapper\<lparr>xids := [(''alice'', 1), (''bob'', 2)], mapEdgeCount := 2, shards :=
       [[11, 8, 0, 107, 110, 111, 119, 115, 0, 1, 0, 2,
         11, 8, 4, 107, 110, 111, 119, 115, 0, 2, 0, 1]]\<rparr>) \<and>
   entryBytes example_env
       (newMapEntry (DataKey example_env ''knows'' 1)
          (example_ref 2\<lparr>Posting_ValType := Posting_UID\<rparr>)) @
     entryBytes example_env
       (newMapEntry (ReverseKey example_env ''knows'' 2)
          (example_ref 1\<lparr>Posting_ValType := Posting_UID\<rparr>)) =
     [11, 8, 0, 107, 110, 111, 119, 115, 0, 1, 0, 2,
      11, 8, 4, 107, 110, 111, 119, 115, 0, 2, 0, 1] \<and>
   SchemaUpdate_Directive (getSchema example_env (NQuad_Predicate example_likes)) =
     SchemaUpdate_REVERSE \<and>
   NQuad_ObjectValue example_likes = Some (Value_StrVal ''tea'') \<and>
   lookupUid example_env 1 ''alice'' example_mapper =
     Ok (1, example_mapper\<lparr>xids := [(''alice'', 1)]\<rparr>) \<and>
   CreateValueEdge example_env example_likes 1 = Some example_likes_edge \<and>
   validateType example_env example_likes_edge False = Some example_likes_edge \<and>
   NewPosting example_env example_likes_edge =
     Some \<lparr>Posting_Uid = 0, Posting_Value = [116, 101, 97], Posting_ValType = Posting_STRING,
           Posting_PostingType = Posting_VALUE, Posting_Facets = []\<rparr> \<and>
   createPostings example_env example_likes example_likes_edge = None \<and>
   processNQuad example_env 2 example_likes example_mapper = Fatal"
proof -
  let ?de = "exCreateUidEdge example_knows 1 2"
  let ?fwd = "example_ref 2\<lparr>Posting_ValType := Posting_UID\<rparr>"
  let ?rp = "example_ref 1\<lparr>Posting_ValType := Posting_UID\<rparr>"
  let ?m1 = "example_mapper\<lparr>xids := [(''alice'', 1)]\<rparr>"
  let ?m2 = "example_mapper\<lparr>xids := [(''alice'', 1), (''bob'', 2)]\<rparr>"
  let ?m' = "example_mapper\<lparr>xids := [(''alice'', 1), (''bob'', 2)], mapEdgeCount := 2, shards :=
      [[11, 8, 0, 107, 110, 111, 119, 115, 0, 1, 0, 2,
        11, 8, 4, 107, 110, 111, 119, 115, 0, 2, 0, 1]]\<rparr>"
  have l1: "lookupUid example_env 1 ''alice'' example_mapper = Ok (1, ?m1)"
    by code_simp
  have l2: "lookupUid example_env 1 ''bob'' ?m1 = Ok (2, ?m2)"
    by code_simp
  have c: "createPostings example_env example_knows ?de = Some (?fwd, Some ?rp, ?de)"
    by code_simp
  have k: "SchemaUpdate_Directive (getSchema example_env (NQuad_Predicate example_knows)) =
     SchemaUpdate_REVERSE" "NQuad_ObjectValue example_knows = None"
    "NQuad_Subject example_knows = ''alice''" "NQuad_ObjectId example_knows = ''bob''"
    "CreateUidEdge example_env = exCreateUidEdge"
    by (simp_all add: example_env_def exSchema_def example_knows_def)
  have e: "of_option (addMapEntries example_env
      (nodeEntries example_env example_knows 1 2 ?fwd (Some ?rp)) ?m2) = Ok ?m'"
    by code_simp
  have b: "entryBytes example_env (newMapEntry (DataKey example_env ''knows'' 1) ?fwd) @
     entryBytes example_env (newMapEntry (ReverseKey example_env ''knows'' 2) ?rp) =
     [11, 8, 0, 107, 110, 111, 119, 115, 0, 1, 0, 2,
      11, 8, 4, 107, 110, 111, 119, 115, 0, 2, 0, 1]"
    by code_simp
  have l: "SchemaUpdate_Directive (getSchema example_env (NQuad_Predicate example_likes)) =
     SchemaUpdate_REVERSE" "NQuad_ObjectValue example_likes = Some (Value_StrVal ''tea'')"
    by (simp_all add: example_env_def exSchema_def example_likes_def)
  have v: "CreateValueEdge example_env example_likes 1 = Some example_likes_edge"
    "validateType example_env example_likes_edge False = Some example_likes_edge"
    "NewPosting example_env example_likes_edge =
     Some \<lparr>Posting_Uid = 0, Posting_Value = [116, 101, 97], Posting_ValType = Posting_STRING,
           Posting_PostingType = Posting_VALUE, Posting_Facets = []\<rparr>"
    by code_simp+
  have f: "processNQuad example_env 2 example_likes example_mapper \<noteq> OutOfFuel"
    by code_simp
  note t1 = reverse_posting [of example_env example_knows ?de ?fwd "Some ?rp" ?de]
  note t1' = t1 [THEN conjunct2, THEN conjunct1, THEN spec, THEN spec, THEN spec, THEN spec,
      THEN spec, THEN spec, THEN spec, THEN spec, THEN spec, THEN mp,
      of 1 example_mapper 1 ?m1 2 ?m2 ?fwd "Some ?rp" ?de]
  have "processNQuad example_env (Suc 1) example_knows example_mapper =
      of_option (addMapEntries example_env
        (nodeEntries example_env example_knows 1 2 ?fwd (Some ?rp)) ?m2)"
    by (rule t1' [THEN conjunct2, THEN conjunct1]) (simp only: k l1 l2 c simp_thms)
  with e have p: "processNQuad example_env 2 example_knows example_mapper = Ok ?m'"
    by (simp add: numeral_2_eq_2)
  note t2 = reverse_posting [of example_env example_likes example_likes_edge]
  from t2 l have n: "createPostings example_env example_likes example_likes_edge = None"
    and "\<forall>k m m'. processNQuad example_env k example_likes m \<noteq> Ok m'"
    by simp_all
  with f have ft: "processNQuad example_env 2 example_likes example_mapper = Fatal"
    by (cases "processNQuad example_env 2 example_likes example_mapper") simp_all
  from l1 l2 c k(1,2) p b l v n ft show ?thesis by (intro conjI)
qed

subsection \<open>C7: the statement of an external identifier\<close>

text \<open>
  C7. Let \<^verbatim>\<open>AssignUid\<close> give the UID \<open>uid\<close> for an identifier. With \<^verbatim>\<open>StoreXids\<close> set, a
  new identifier without the prefix \<open>_:\<close> makes \<^verbatim>\<open>lookupUid\<close> run \<^verbatim>\<open>processNQuad\<close> once,
  on the statement whose subject is the identifier, whose predicate is \<open>xid\<close> and whose
  object is the identifier as a string, and return \<open>uid\<close> afterwards. In every other
  case, and for every identifier with the prefix \<open>_:\<close>, \<^verbatim>\<open>lookupUid\<close> returns \<open>uid\<close> and
  changes nothing but the UID table. When \<^verbatim>\<open>AssignUid\<close> is idempotent, the one statement is
  all there is: \<^verbatim>\<open>lookupUid\<close> is then the entries of that one value edge.
\<close>

theorem lookupUid_synthesizes:
  assumes "AssignUid env (xids m) xid = (uid, isNew, xs)"
  shows "(StoreXids (opt env) \<and> isNew \<and> \<not> HasPrefix xid ''_:'' \<longrightarrow>
            lookupUid env (Suc k) xid m =
              (case processNQuad env k
                      \<lparr>NQuad_Subject = xid, NQuad_Predicate = ''xid'', NQuad_ObjectId = [],
                       NQuad_ObjectValue = Some (Value_StrVal xid), NQuad_Lang = [],
                       NQuad_Facets = []\<rparr>
                      (m\<lparr>xids := xs\<rparr>) of
                 Fatal \<Rightarrow> Fatal
               | OutOfFuel \<Rightarrow> OutOfFuel
               | Ok m' \<Rightarrow> Ok (uid, m'))) \<and>
         (\<not> (StoreXids (opt env) \<and> isNew \<and> \<not> HasPrefix xid ''_:'') \<longrightarrow>
            lookupUid env (Suc k) xid m = Ok (uid, m\<lparr>xids := xs\<rparr>)) \<and>
         (HasPrefix xid ''_:'' \<longrightarrow> lookupUid env (Suc k) xid m = Ok (uid, m\<lparr>xids := xs\<rparr>)) \<and>
         (idempotent env \<and> StoreXids (opt env) \<and> isNew \<and> \<not> HasPrefix xid ''_:'' \<longrightarrow>
            lookupUid env (Suc (Suc (Suc k))) xid m =
              (case AssignUid env xs xid of
                 (uid', isNew', xs') \<Rightarrow>
                   (case CreateValueEdge env (xidNQuad xid) uid' of
                      None \<Rightarrow> Fatal
                    | Some de \<Rightarrow>
                        (case processEdge env (xidNQuad xid) uid' 0 de (m\<lparr>xids := xs'\<rparr>) of
                           None \<Rightarrow> Fatal
                         | Some m' \<Rightarrow> Ok (uid, m')))))"
proof (intro conjI impI)
  assume "StoreXids (opt env) \<and> isNew \<and> \<not> HasPrefix xid ''_:''"
  with assms show "lookupUid env (Suc k) xid m =
              (case processNQuad env k
                      \<lparr>NQuad_Subject = xid, NQuad_Predicate = ''xid'', NQuad_ObjectId = [],
                       NQuad_ObjectValue = Some (Value_StrVal xid), NQuad_Lang = [],
                       NQuad_Facets = []\<rparr>
                      (m\<lparr>xids := xs\<rparr>) of
                 Fatal \<Rightarrow> Fatal
               | OutOfFuel \<Rightarrow> OutOfFuel
               | Ok m' \<Rightarrow> Ok (uid, m'))"
    by (simp add: Let_def xidNQuad_def)
next
  assume "\<not> (StoreXids (opt env) \<and> isNew \<and> \<not> HasPrefix xid ''_:'')"
  with assms show "lookupUid env (Suc k) xid m = Ok (uid, m\<lparr>xids := xs\<rparr>)"
    by (intro lookupUid_plain) auto
next
  assume "HasPrefix xid ''_:''"
  with assms show "lookupUid env (Suc k) xid m = Ok (uid, m\<lparr>xids := xs\<rparr>)"
    by (intro lookupUid_plain) auto
next
  assume a: "idempotent env \<and> StoreXids (opt env) \<and> isNew \<and> \<not> HasPrefix xid ''_:''"
  then have idem: "idempotent env" by simp
  have p: "processNQuad env (Suc (Suc k)) (xidNQuad xid) (m\<lparr>xids := xs\<rparr>) =
     (case AssignUid env xs xid of
        (uid', isNew', xs') \<Rightarrow>
          (case CreateValueEdge env (xidNQuad xid) uid' of
             None \<Rightarrow> Fatal
           | Some de \<Rightarrow> of_option (processEdge env (xidNQuad xid) uid' 0 de
                          (m\<lparr>xids := xs, xids := xs'\<rparr>))))"
    by (rule processNQuad_xid [OF idem assms]) simp
  have "lookupUid env (Suc (Suc (Suc k))) xid m =
      (case processNQuad env (Suc (Suc k)) (xidNQuad xid) (m\<lparr>xids := xs\<rparr>) of
         Fatal \<Rightarrow> Fatal | OutOfFuel \<Rightarrow> OutOfFuel | Ok m' \<Rightarrow> Ok (uid, m'))"
    using assms a by (simp add: Let_def)
  then show "lookupUid env (Suc (Suc (Suc k))) xid m =
              (case AssignUid env xs xid of
                 (uid', isNew', xs') \<Rightarrow>
                   (case CreateValueEdge env (xidNQuad xid) uid' of
                      None \<Rightarrow> Fatal
                    | Some de \<Rightarrow>
                        (case processEdge env (xidNQuad xid) uid' 0 de (m\<lparr>xids := xs'\<rparr>) of
                           None \<Rightarrow> Fatal
                         | Some m' \<Rightarrow> Ok (uid, m'))))"
    unfolding p by (auto simp: of_option_def split: prod.splits option.splits)
qed

theorem lookupUid_synthesizes_witness:
  "AssignUid example_env_xids (xids example_mapper) ''alice'' = (1, True, [(''alice'', 1)]) \<and>
   StoreXids (opt example_env_xids) \<and> HasPrefix ''_:b'' ''_:'' \<and>
   lookupUid example_env_xids 3 ''alice'' example_mapper =
     (case processNQuad example_env_xids 2
             \<lparr>NQuad_Subject = ''alice'', NQuad_Predicate = ''xid'', NQuad_ObjectId = [],
              NQuad_ObjectValue = Some (Value_StrVal ''alice''), NQuad_Lang = [],
              NQuad_Facets = []\<rparr>
             (example_mapper\<lparr>xids := [(''alice'', 1)]\<rparr>) of
        Fatal \<Rightarrow> Fatal
      | OutOfFuel \<Rightarrow> OutOfFuel
      | Ok m' \<Rightarrow> Ok (1, m')) \<and>
   lookupUid example_env_xids 3 ''alice'' example_mapper =
     Ok (1, example_mapper\<lparr>xids := [(''alice'', 1)], mapEdgeCount := 1,
       shards := [[16, 6, 0, 120, 105, 100, 0, 1, 1, 255, 9, 1, 97, 108, 105, 99, 101]]\<rparr>) \<and>
   AssignUid example_env_xids (xids example_mapper) ''_:b'' = (1, True, [(''_:b'', 1)]) \<and>
   lookupUid example_env_xids 3 ''_:b'' example_mapper =
     Ok (1, example_mapper\<lparr>xids := [(''_:b'', 1)]\<rparr>)"
proof -
  have a: "AssignUid example_env_xids (xids example_mapper) ''alice'' =
      (1, True, [(''alice'', 1)])"
    by (simp add: example_env_xids_def example_env_def example_mapper_def exAssignUid_def)
  have b: "AssignUid example_env_xids (xids example_mapper) ''_:b'' = (1, True, [(''_:b'', 1)])"
    by (simp add: example_env_xids_def example_env_def example_mapper_def exAssignUid_def)
  have s: "StoreXids (opt example_env_xids)" "HasPrefix ''_:b'' ''_:''" "\<not> HasPrefix ''alice'' ''_:''"
    by (simp_all add: example_env_xids_def example_env_def)
  have v: "lookupUid example_env_xids 3 ''alice'' example_mapper =
     Ok (1, example_mapper\<lparr>xids := [(''alice'', 1)], mapEdgeCount := 1,
       shards := [[16, 6, 0, 120, 105, 100, 0, 1, 1, 255, 9, 1, 97, 108, 105, 99, 101]]\<rparr>)"
    by code_simp
  have 3: "(3 :: nat) = Suc 2" by simp
  from lookupUid_synthesizes [OF a, of 2] s have 1:
    "lookupUid example_env_xids 3 ''alice'' example_mapper =
     (case processNQuad example_env_xids 2
             \<lparr>NQuad_Subject = ''alice'', NQuad_Predicate = ''xid'', NQuad_ObjectId = [],
              NQuad_ObjectValue = Some (Value_StrVal ''alice''), NQuad_Lang = [],
              NQuad_Facets = []\<rparr>
             (example_mapper\<lparr>xids := [(''alice'', 1)]\<rparr>) of
        Fatal \<Rightarrow> Fatal
      | OutOfFuel \<Rightarrow> OutOfFuel
      | Ok m' \<Rightarrow> Ok (1, m'))"
    unfolding 3 by blast
  from lookupUid_synthesizes [OF b, of 2] s have 2:
    "lookupUid example_env_xids 3 ''_:b'' example_mapper =
     Ok (1, example_mapper\<lparr>xids := [(''_:b'', 1)]\<rparr>)"
    unfolding 3 by blast
  from a b s 1 2 v show ?thesis by blast
qed

subsection \<open>C8: the recursion ends after one level\<close>

text \<open>
  C8. Let \<^verbatim>\<open>AssignUid\<close> be idempotent. Then a depth of 4 is enough for \<^verbatim>\<open>processNQuad\<close>
  and a depth of 3 for \<^verbatim>\<open>lookupUid\<close>: with that much or more they never run out, and
  the result does not depend on the depth. And processing the statement synthesized
  for an identifier that was just resolved synthesizes no further statement: it
  resolves the subject again, which is not new, and emits the entries of the value edge.
\<close>

theorem xid_recursion_terminates:
  assumes "idempotent env"
  shows "(4 \<le> k \<longrightarrow>
            processNQuad env k nq m \<noteq> OutOfFuel \<and>
            processNQuad env k nq m = processNQuad env 4 nq m) \<and>
         (3 \<le> k \<longrightarrow>
            lookupUid env k xid m \<noteq> OutOfFuel \<and>
            lookupUid env k xid m = lookupUid env 3 xid m) \<and>
         (2 \<le> k \<and> AssignUid env xs0 xid = (uid, isNew, xids m) \<longrightarrow>
            processNQuad env k (xidNQuad xid) m =
              (case AssignUid env (xids m) xid of
                 (uid', isNew', xs') \<Rightarrow>
                   (case CreateValueEdge env (xidNQuad xid) uid' of
                      None \<Rightarrow> Fatal
                    | Some de \<Rightarrow>
                        of_option (processEdge env (xidNQuad xid) uid' 0 de (m\<lparr>xids := xs'\<rparr>)))))"
proof (intro conjI impI)
  assume "4 \<le> k"
  then obtain j where "k = 4 + j" by (auto simp: le_iff_add)
  then have k: "k = Suc (Suc (Suc (Suc j)))" by simp
  have 4: "(4 :: nat) = Suc (Suc (Suc (Suc 0)))" by simp
  from processNQuad_fuel [OF assms, of j nq m]
  have "processNQuad env k nq m = processNQuad env 4 nq m \<and>
        processNQuad env k nq m \<noteq> OutOfFuel"
    unfolding k 4 .
  then show "processNQuad env k nq m \<noteq> OutOfFuel"
    "processNQuad env k nq m = processNQuad env 4 nq m"
    by blast+
next
  assume "3 \<le> k"
  then obtain j where "k = 3 + j" by (auto simp: le_iff_add)
  then have k: "k = Suc (Suc (Suc j))" by simp
  have 3: "(3 :: nat) = Suc (Suc (Suc 0))" by simp
  from lookupUid_fuel [OF assms, of j xid m]
  have "lookupUid env k xid m = lookupUid env 3 xid m \<and> lookupUid env k xid m \<noteq> OutOfFuel"
    unfolding k 3 .
  then show "lookupUid env k xid m \<noteq> OutOfFuel" "lookupUid env k xid m = lookupUid env 3 xid m"
    by blast+
next
  assume a: "2 \<le> k \<and> AssignUid env xs0 xid = (uid, isNew, xids m)"
  then obtain j where "k = 2 + j" by (auto simp: le_iff_add)
  then have k: "k = Suc (Suc j)" by simp
  from a have "AssignUid env xs0 xid = (uid, isNew, xids m)" by simp
  from processNQuad_xid [OF assms this refl, of j]
  show "processNQuad env k (xidNQuad xid) m =
              (case AssignUid env (xids m) xid of
                 (uid', isNew', xs') \<Rightarrow>
                   (case CreateValueEdge env (xidNQuad xid) uid' of
                      None \<Rightarrow> Fatal
                    | Some de \<Rightarrow>
                        of_option (processEdge env (xidNQuad xid) uid' 0 de (m\<lparr>xids := xs'\<rparr>))))"
    unfolding k .
qed

theorem xid_recursion_terminates_witness:
  "idempotent example_env_xids \<and>
   processNQuad example_env_xids 9 example_knows example_mapper =
     processNQuad example_env_xids 4 example_knows example_mapper \<and>
   processNQuad example_env_xids 9 example_knows example_mapper \<noteq> OutOfFuel \<and>
   processNQuad example_env_xids 4 example_knows example_mapper =
     Ok (example_mapper\<lparr>xids := [(''alice'', 1), (''bob'', 2)], mapEdgeCount := 4,
       shards := [[16, 6, 0, 120, 105, 100, 0, 1, 1, 255, 9, 1, 97, 108, 105, 99, 101,
                   14, 6, 0, 120, 105, 100, 0, 2, 1, 255, 9, 1, 98, 111, 98,
                   11, 8, 0, 107, 110, 111, 119, 115, 0, 1, 0, 2,
                   11, 8, 4, 107, 110, 111, 119, 115, 0, 2, 0, 1]]\<rparr>) \<and>
   processNQuad example_env_xids 3 example_knows example_mapper = OutOfFuel"
proof -
  have v: "processNQuad example_env_xids 4 example_knows example_mapper =
     Ok (example_mapper\<lparr>xids := [(''alice'', 1), (''bob'', 2)], mapEdgeCount := 4,
       shards := [[16, 6, 0, 120, 105, 100, 0, 1, 1, 255, 9, 1, 97, 108, 105, 99, 101,
                   14, 6, 0, 120, 105, 100, 0, 2, 1, 255, 9, 1, 98, 111, 98,
                   11, 8, 0, 107, 110, 111, 119, 115, 0, 1, 0, 2,
                   11, 8, 4, 107, 110, 111, 119, 115, 0, 2, 0, 1]]\<rparr>)"
    by code_simp
  have o: "processNQuad example_env_xids 3 example_knows example_mapper = OutOfFuel"
    by code_simp
  have "processNQuad example_env_xids 9 example_knows example_mapper \<noteq> OutOfFuel \<and>
        processNQuad example_env_xids 9 example_knows example_mapper =
          processNQuad example_env_xids 4 example_knows example_mapper"
    by (rule xid_recursion_terminates [OF example_idempotent, of 9 example_knows example_mapper,
          THEN conjunct1, THEN mp]) simp
  with example_idempotent v o show ?thesis by blast
qed

subsection \<open>C9: empty and malformed lines\<close>

text \<open>
  C9. On a line that parses as empty, \<^verbatim>\<open>processRDF\<close> returns no error and leaves the
  state as it is; the worker loop then counts the line and no error, and no map entry
  is added. On a line that does not parse, \<^verbatim>\<open>processRDF\<close> returns the error and leaves
  the state as it is; the worker loop counts the error, and then the process ends
  unless \<^verbatim>\<open>IgnoreErrors\<close> is set, in which case the line is counted, no map entry is
  added and the loop goes on.
\<close>

theorem processRDF_errors:
  "(Parse env line = Inl ErrEmpty \<longrightarrow> processRDF env k line m = Ok (None, m)) \<and>
   (Parse env (TrimSpace env rdf) = Inl ErrEmpty \<longrightarrow>
      runLine env k rdf m =
        of_option (flushFull env [0 ..< length (shards m)] (m\<lparr>rdfCount := rdfCount m + 1\<rparr>)) \<and>
      (\<forall>m'. runLine env k rdf m = Ok m' \<longrightarrow>
         errCount m' = errCount m \<and> mapEdgeCount m' = mapEdgeCount m \<and>
         rdfCount m' = rdfCount m + 1)) \<and>
   (\<forall>e. Parse env line = Inl e \<and> e \<noteq> ErrEmpty \<longrightarrow>
      processRDF env k line m = Ok (Some (ParseFailed e line), m)) \<and>
   (\<forall>e. Parse env (TrimSpace env rdf) = Inl e \<and> e \<noteq> ErrEmpty \<longrightarrow>
      (\<not> IgnoreErrors (opt env) \<longrightarrow> runLine env k rdf m = Fatal) \<and>
      (IgnoreErrors (opt env) \<longrightarrow>
         runLine env k rdf m =
           of_option (flushFull env [0 ..< length (shards m)]
             (m\<lparr>errCount := errCount m + 1, rdfCount := rdfCount m + 1\<rparr>)) \<and>
         (\<forall>m'. runLine env k rdf m = Ok m' \<longrightarrow>
            errCount m' = errCount m + 1 \<and> mapEdgeCount m' = mapEdgeCount m \<and>
            rdfCount m' = rdfCount m + 1)))"
proof -
  have 1: "runLine env k rdf m =
        of_option (flushFull env [0 ..< length (shards m)] (m\<lparr>rdfCount := rdfCount m + 1\<rparr>))"
    if "Parse env (TrimSpace env rdf) = Inl ErrEmpty"
    using processRDF_empty [OF that, of k m] by (simp add: runLine_def Let_def)
  have 2: "errCount m' = errCount m \<and> mapEdgeCount m' = mapEdgeCount m \<and>
         rdfCount m' = rdfCount m + 1"
    if "Parse env (TrimSpace env rdf) = Inl ErrEmpty" "runLine env k rdf m = Ok m'" for m'
  proof -
    from that 1 have "flushFull env [0 ..< length (shards m)] (m\<lparr>rdfCount := rdfCount m + 1\<rparr>) =
        Some m'"
      by (auto simp: of_option_def split: option.splits)
    from flushFull_counters [OF this] show ?thesis by simp
  qed
  have 3: "runLine env k rdf m = Fatal"
    if "Parse env (TrimSpace env rdf) = Inl e" "e \<noteq> ErrEmpty" "\<not> IgnoreErrors (opt env)" for e
    using processRDF_malformed [OF that(1,2), of k m] that(3) by (simp add: runLine_def Let_def)
  have 4: "runLine env k rdf m =
           of_option (flushFull env [0 ..< length (shards m)]
             (m\<lparr>errCount := errCount m + 1, rdfCount := rdfCount m + 1\<rparr>))"
    if "Parse env (TrimSpace env rdf) = Inl e" "e \<noteq> ErrEmpty" "IgnoreErrors (opt env)" for e
    using processRDF_malformed [OF that(1,2), of k m] that(3) by (simp add: runLine_def Let_def)
  have 5: "errCount m' = errCount m + 1 \<and> mapEdgeCount m' = mapEdgeCount m \<and>
            rdfCount m' = rdfCount m + 1"
    if "Parse env (TrimSpace env rdf) = Inl e" "e \<noteq> ErrEmpty" "IgnoreErrors (opt env)"
      "runLine env k rdf m = Ok m'" for e m'
  proof -
    from that 4 have "flushFull env [0 ..< length (shards m)]
             (m\<lparr>errCount := errCount m + 1, rdfCount := rdfCount m + 1\<rparr>) = Some m'"
      by (auto simp: of_option_def split: option.splits)
    from flushFull_counters [OF this] show ?thesis by simp
  qed
  from 1 2 3 4 5 processRDF_empty processRDF_malformed show ?thesis by blast
qed

theorem processRDF_errors_witness:
  "Parse example_env (TrimSpace example_env []) = Inl ErrEmpty \<and>
   processRDF example_env 4 [] example_mapper = Ok (None, example_mapper) \<and>
   runLine example_env 4 [] example_mapper = Ok (example_mapper\<lparr>rdfCount := 1\<rparr>) \<and>
   Parse example_env (TrimSpace example_env ''alice knows'') = Inl (ErrInvalid ''alice knows'') \<and>
   processRDF example_env 4 ''alice knows'' example_mapper =
     Ok (Some (ParseFailed (ErrInvalid ''alice knows'') ''alice knows''), example_mapper) \<and>
   \<not> IgnoreErrors (opt example_env) \<and>
   runLine example_env 4 ''alice knows'' example_mapper = Fatal \<and>
   IgnoreErrors (opt example_env_ignore) \<and>
   runLine example_env_ignore 4 ''alice knows'' example_mapper =
     Ok (example_mapper\<lparr>errCount := 1, rdfCount := 1\<rparr>)"
proof -
  have e: "Parse example_env (TrimSpace example_env []) = Inl ErrEmpty"
    "Parse example_env [] = Inl ErrEmpty"
    by (simp_all add: example_env_def exParse_def exTrimSpace_def)
  have b: "Parse example_env (TrimSpace example_env ''alice knows'') =
      Inl (ErrInvalid ''alice knows'')"
    "Parse example_env ''alice knows'' = Inl (ErrInvalid ''alice knows'')"
    "Parse example_env_ignore (TrimSpace example_env_ignore ''alice knows'') =
      Inl (ErrInvalid ''alice knows'')"
    by (simp_all add: example_env_ignore_def example_env_def exParse_def exTrimSpace_def)
  have n: "ErrInvalid ''alice knows'' \<noteq> ErrEmpty" by simp
  have i: "\<not> IgnoreErrors (opt example_env)" "IgnoreErrors (opt example_env_ignore)"
    by (simp_all add: example_env_ignore_def example_env_def)
  have f: "flushFull example_env [0 ..< length (shards example_mapper)]
      (example_mapper\<lparr>rdfCount := rdfCount example_mapper + 1\<rparr>) =
      Some (example_mapper\<lparr>rdfCount := 1\<rparr>)"
    by (simp add: example_mapper_def example_env_def)
  have g: "flushFull example_env_ignore [0 ..< length (shards example_mapper)]
      (example_mapper\<lparr>errCount := errCount example_mapper + 1,
         rdfCount := rdfCount example_mapper + 1\<rparr>) =
      Some (example_mapper\<lparr>errCount := 1, rdfCount := 1\<rparr>)"
    by (simp add: example_mapper_def example_env_def example_env_ignore_def)
  note t = processRDF_errors [of example_env "[]" 4 example_mapper "[]"]
  note u = processRDF_errors [of example_env "''alice knows''" 4 example_mapper "''alice knows''"]
  note v = processRDF_errors [of example_env_ignore "''alice knows''" 4 example_mapper
      "''alice knows''"]
  have 1: "processRDF example_env 4 [] example_mapper = Ok (None, example_mapper)"
    by (rule t [THEN conjunct1, THEN mp, OF e(2)])
  have 2: "runLine example_env 4 [] example_mapper = Ok (example_mapper\<lparr>rdfCount := 1\<rparr>)"
    using t [THEN conjunct2, THEN conjunct1, THEN mp, OF e(1), THEN conjunct1]
    by (simp only: f of_option_def option.case)
  have 3: "processRDF example_env 4 ''alice knows'' example_mapper =
     Ok (Some (ParseFailed (ErrInvalid ''alice knows'') ''alice knows''), example_mapper)"
    by (rule u [THEN conjunct2, THEN conjunct2, THEN conjunct1, THEN spec, THEN mp,
          OF conjI [OF b(2) n]])
  have 4: "runLine example_env 4 ''alice knows'' example_mapper = Fatal"
    by (rule u [THEN conjunct2, THEN conjunct2, THEN conjunct2, THEN spec, THEN mp,
          OF conjI [OF b(1) n], THEN conjunct1, THEN mp, OF i(1)])
  have 5: "runLine example_env_ignore 4 ''alice knows'' example_mapper =
     Ok (example_mapper\<lparr>errCount := 1, rdfCount := 1\<rparr>)"
    using v [THEN conjunct2, THEN conjunct2, THEN conjunct2, THEN spec, THEN mp,
          OF conjI [OF b(3) n], THEN conjunct2, THEN mp, OF i(2), THEN conjunct1]
    by (simp only: g of_option_def option.case)
  from e(1) b(1) i 1 2 3 4 5 show ?thesis by (intro conjI)
qed

subsection \<open>C5: the number of entries of a batch\<close>

text \<open>
  C5, as amended. With \<^verbatim>\<open>StoreXids\<close> off, a batch of statements that \<^verbatim>\<open>processNQuad\<close>
  processes emits as many map entries as the sum over the statements of: 1 for the
  forward entry, 1 if the predicate has the reverse directive and the object is a
  node, the number of tokens produced if the object is a value, and 1 under
  \<^verbatim>\<open>ExpandEdges\<close>. The subjects need not be distinct.
\<close>

theorem entry_count_law:
  assumes "\<not> StoreXids (opt env)" and "processNQuads env k nqs m = Ok m'"
  shows "mapEdgeCount m' = mapEdgeCount m + batchLaw env (xids m) nqs"
  using assms(2)
proof (induction nqs arbitrary: m)
  case Nil
  then show ?case by simp
next
  case (Cons nq nqs)
  from Cons.prems obtain m1 where
    p: "processNQuad env k nq m = Ok m1" and r: "processNQuads env k nqs m1 = Ok m'"
    by (auto split: result.splits)
  from processNQuad_count [OF assms(1) p] obtain de xs fwd rev' de' where
    c: "resolveEdge env (xids m) nq = (Some de, xs)"
       "createPostings env nq de = Some (fwd, rev', de')"
       "mapEdgeCount m1 = mapEdgeCount m + entryLaw env nq de'" "xids m1 = xs"
    by blast
  from Cons.IH [OF r] c show ?case by simp
qed

theorem entry_count_law_witness:
  "\<not> StoreXids (opt example_env) \<and>
   processNQuads example_env 4 [example_knows, example_name] example_mapper =
     Ok (example_mapper\<lparr>xids := [(''alice'', 1), (''bob'', 2)], mapEdgeCount := 4,
       shards := [[11, 8, 0, 107, 110, 111, 119, 115, 0, 1, 0, 2,
                   11, 8, 4, 107, 110, 111, 119, 115, 0, 2, 0, 1,
                   14, 7, 0, 110, 97, 109, 101, 0, 1, 1, 255, 9, 1, 65, 108,
                   11, 8, 2, 110, 97, 109, 101, 0, 65, 108, 0, 1]]\<rparr>) \<and>
   batchLaw example_env [] [example_knows, example_name] = 4 \<and>
   entryLaw example_env example_knows (exCreateUidEdge example_knows 1 2) = 1 + 1 + 0 + 0 \<and>
   exCreateValueEdge example_name 1 = Some example_name_edge \<and>
   tokensOf example_env example_name_edge (getSchema example_env ''name'') [''exact''] =
     [''Al''] \<and>
   entryLaw example_env example_name example_name_edge = 1 + 0 + 1 + 0"
proof -
  have s: "\<not> StoreXids (opt example_env)" by (simp add: example_env_def)
  have p: "processNQuads example_env 4 [example_knows, example_name] example_mapper =
     Ok (example_mapper\<lparr>xids := [(''alice'', 1), (''bob'', 2)], mapEdgeCount := 4,
       shards := [[11, 8, 0, 107, 110, 111, 119, 115, 0, 1, 0, 2,
                   11, 8, 4, 107, 110, 111, 119, 115, 0, 2, 0, 1,
                   14, 7, 0, 110, 97, 109, 101, 0, 1, 1, 255, 9, 1, 65, 108,
                   11, 8, 2, 110, 97, 109, 101, 0, 65, 108, 0, 1]]\<rparr>)"
    by code_simp
  from entry_count_law [OF s p] have b: "batchLaw example_env [] [example_knows, example_name] = 4"
    by (simp add: example_mapper_def)
  have k: "entryLaw example_env example_knows (exCreateUidEdge example_knows 1 2) = 1 + 1 + 0 + 0"
    by code_simp
  have n: "exCreateValueEdge example_name 1 = Some example_name_edge"
    "tokensOf example_env example_name_edge (getSchema example_env ''name'') [''exact''] =
     [''Al'']"
    "entryLaw example_env example_name example_name_edge = 1 + 0 + 1 + 0"
    by code_simp+
  from s p b k n show ?thesis by (intro conjI)
qed

text \<open>
  C5 as stated fails with \<^verbatim>\<open>StoreXids\<close> on: the one statement \<open>alice knows bob\<close>, whose law
  is 1 + 1 + 0 + 0, emits 4 entries, two of them for the statements \<^verbatim>\<open>lookupUid\<close>
  synthesizes for the new identifiers \<open>alice\<close> and \<open>bob\<close>.
\<close>

theorem entry_count_with_xids:
  "StoreXids (opt example_env_xids) \<and>
   processNQuads example_env_xids 4 [example_knows] example_mapper =
     Ok (example_mapper\<lparr>xids := [(''alice'', 1), (''bob'', 2)], mapEdgeCount := 4,
       shards := [[16, 6, 0, 120, 105, 100, 0, 1, 1, 255, 9, 1, 97, 108, 105, 99, 101,
                   14, 6, 0, 120, 105, 100, 0, 2, 1, 255, 9, 1, 98, 111, 98,
                   11, 8, 0, 107, 110, 111, 119, 115, 0, 1, 0, 2,
                   11, 8, 4, 107, 110, 111, 119, 115, 0, 2, 0, 1]]\<rparr>) \<and>
   mapEdgeCount example_mapper = 0 \<and>
   SchemaUpdate_Directive (getSchema example_env_xids ''knows'') = SchemaUpdate_REVERSE \<and>
   NQuad_ObjectValue example_knows = None \<and>
   \<not> ExpandEdges (opt example_env_xids) \<and>
   batchLaw example_env_xids (xids example_mapper) [example_knows] = 1 + 1 + 0 + 0 \<and>
   (4 :: int) \<noteq> mapEdgeCount example_mapper +
     batchLaw example_env_xids (xids example_mapper) [example_knows]"
proof -
  have a: "StoreXids (opt example_env_xids) \<and>
   processNQuads example_env_xids 4 [example_knows] example_mapper =
     Ok (example_mapper\<lparr>xids := [(''alice'', 1), (''bob'', 2)], mapEdgeCount := 4,
       shards := [[16, 6, 0, 120, 105, 100, 0, 1, 1, 255, 9, 1, 97, 108, 105, 99, 101,
                   14, 6, 0, 120, 105, 100, 0, 2, 1, 255, 9, 1, 98, 111, 98,
                   11, 8, 0, 107, 110, 111, 119, 115, 0, 1, 0, 2,
                   11, 8, 4, 107, 110, 111, 119, 115, 0, 2, 0, 1]]\<rparr>) \<and>
   mapEdgeCount example_mapper = 0 \<and>
   SchemaUpdate_Directive (getSchema example_env_xids ''knows'') = SchemaUpdate_REVERSE \<and>
   NQuad_ObjectValue example_knows = None \<and>
   \<not> ExpandEdges (opt example_env_xids) \<and>
   batchLaw example_env_xids (xids example_mapper) [example_knows] = 1 + 1 + 0 + 0"
    by code_simp
  then have "(4 :: int) \<noteq> mapEdgeCount example_mapper +
     batchLaw example_env_xids (xids example_mapper) [example_knows]"
    by simp
  with a show ?thesis by (simp only: simp_thms)
qed

end
